theory Spec2Isabelle
  imports Main "HOL-Library.AList"
begin

section \<open>JavaScript strings and values\<close>

text \<open>
  A JavaScript string is a sequence of UTF-16 code units; \<^verbatim>\<open>length\<close>, \<^verbatim>\<open>trim\<close>,
  \<^verbatim>\<open>split\<close>, \<^verbatim>\<open>includes\<close> and regular expressions without the \<^verbatim>\<open>u\<close> flag all work on
  code units. A code unit is modelled by its numeric value.
\<close>

type_synonym jsstring = "nat list"

text \<open>An ASCII literal, as the code units of its characters.\<close>

definition str :: "string \<Rightarrow> jsstring" where
  "str cs = map of_char cs"

text \<open>
  The class \<^verbatim>\<open>\s\<close> of regular expressions, which is also what \<^verbatim>\<open>trim\<close> strips:
  the WhiteSpace and LineTerminator code points of ECMAScript.
\<close>

definition is_ws :: "nat \<Rightarrow> bool" where
  "is_ws c \<longleftrightarrow>
     c = 0x9 \<or> c = 0xA \<or> c = 0xB \<or> c = 0xC \<or> c = 0xD \<or> c = 0x20 \<or> c = 0xA0 \<or>
     c = 0x1680 \<or> (0x2000 \<le> c \<and> c \<le> 0x200A) \<or> c = 0x2028 \<or> c = 0x2029 \<or>
     c = 0x202F \<or> c = 0x205F \<or> c = 0x3000 \<or> c = 0xFEFF"

text \<open>The line terminators: the code units that \<^verbatim>\<open>.\<close> does not match.\<close>

definition is_line_terminator :: "nat \<Rightarrow> bool" where
  "is_line_terminator c \<longleftrightarrow> c = 0xA \<or> c = 0xD \<or> c = 0x2028 \<or> c = 0x2029"

text \<open>The class \<^verbatim>\<open>\d\<close>.\<close>

definition is_digit :: "nat \<Rightarrow> bool" where
  "is_digit c \<longleftrightarrow> 0x30 \<le> c \<and> c \<le> 0x39"


section \<open>Windows-1252 export (MappedTable.tsx)\<close>

definition CP1252_CODEPOINT_TO_BYTE :: "(nat \<times> nat) list" where
  "CP1252_CODEPOINT_TO_BYTE =
    [(0x20ac, 0x80), (0x201a, 0x82), (0x0192, 0x83), (0x201e, 0x84), (0x2026, 0x85),
     (0x2020, 0x86), (0x2021, 0x87), (0x02c6, 0x88), (0x2030, 0x89), (0x0160, 0x8a),
     (0x2039, 0x8b), (0x0152, 0x8c), (0x017d, 0x8e), (0x2018, 0x91), (0x2019, 0x92),
     (0x201c, 0x93), (0x201d, 0x94), (0x2022, 0x95), (0x2013, 0x96), (0x2014, 0x97),
     (0x02dc, 0x98), (0x2122, 0x99), (0x0161, 0x9a), (0x203a, 0x9b), (0x0153, 0x9c),
     (0x017e, 0x9e), (0x0178, 0x9f)]"

text \<open>
  \<^verbatim>\<open>for (const char of input)\<close> walks the string by code points: a high surrogate
  followed by a low surrogate is one code point above 0xFFFF, every other code unit
  (a lone surrogate too) is a code point of its own. \<^verbatim>\<open>codePointAt(0)\<close> is never
  undefined on such a piece.
\<close>

fun code_points :: "jsstring \<Rightarrow> nat list" where
  "code_points (h # l # rest) =
     (if 0xD800 \<le> h \<and> h \<le> 0xDBFF \<and> 0xDC00 \<le> l \<and> l \<le> 0xDFFF
      then (0x10000 + (h - 0xD800) * 0x400 + (l - 0xDC00)) # code_points rest
      else h # code_points (l # rest))"
| "code_points [h] = [h]"
| "code_points [] = []"

text \<open>The number pushed for one code point.\<close>

definition cp1252_byte :: "nat \<Rightarrow> nat" where
  "cp1252_byte code =
     (if code \<le> 0x7f then code
      else if code \<ge> 0xa0 \<and> code \<le> 0xff then code
      else (case map_of CP1252_CODEPOINT_TO_BYTE code of
              Some mapped \<Rightarrow> mapped
            | None \<Rightarrow> 0x3f))"

text \<open>
  A byte is modelled by its value below 256; \<^verbatim>\<open>new Uint8Array(bytes)\<close> stores every
  number modulo 256.
\<close>

definition toCP1252Bytes :: "jsstring \<Rightarrow> nat list" where
  "toCP1252Bytes input = map (\<lambda>code. cp1252_byte code mod 256) (code_points input)"

subsection \<open>The codepage\<close>

text \<open>
  Modelled from the spec: the decoder of the round trip ("decoding with that codepage")
  is no code of the repository, which only encodes. This is the Windows-1252 codepage
  itself: bytes 0x00 to 0x7F and 0xA0 to 0xFF are the code point of the same value,
  twenty-seven bytes between 0x80 and 0x9F are the characters below, and the five bytes
  0x81, 0x8D, 0x8F, 0x90 and 0x9D are unassigned.
\<close>

definition cp1252_high :: "(nat \<times> nat) list" where
  "cp1252_high =
    [(0x80, 0x20ac), (0x82, 0x201a), (0x83, 0x0192), (0x84, 0x201e), (0x85, 0x2026),
     (0x86, 0x2020), (0x87, 0x2021), (0x88, 0x02c6), (0x89, 0x2030), (0x8a, 0x0160),
     (0x8b, 0x2039), (0x8c, 0x0152), (0x8e, 0x017d), (0x91, 0x2018), (0x92, 0x2019),
     (0x93, 0x201c), (0x94, 0x201d), (0x95, 0x2022), (0x96, 0x2013), (0x97, 0x2014),
     (0x98, 0x02dc), (0x99, 0x2122), (0x9a, 0x0161), (0x9b, 0x203a), (0x9c, 0x0153),
     (0x9e, 0x017e), (0x9f, 0x0178)]"

definition cp1252_decode_byte :: "nat \<Rightarrow> nat option" where
  "cp1252_decode_byte b =
     (if b \<le> 0x7f \<or> (0xa0 \<le> b \<and> b \<le> 0xff) then Some b else map_of cp1252_high b)"

text \<open>Decoding fails on an unassigned byte.\<close>

fun fromCP1252Bytes :: "nat list \<Rightarrow> jsstring option" where
  "fromCP1252Bytes [] = Some []"
| "fromCP1252Bytes (b # bs) =
     (case cp1252_decode_byte b of
        None \<Rightarrow> None
      | Some c \<Rightarrow> (case fromCP1252Bytes bs of None \<Rightarrow> None | Some s \<Rightarrow> Some (c # s)))"

text \<open>A character is representable when the codepage assigns it to some byte.\<close>

definition cp1252_representable :: "nat \<Rightarrow> bool" where
  "cp1252_representable c \<longleftrightarrow>
     list_ex (\<lambda>b. cp1252_decode_byte b = Some c) [0 ..< 256]"

section \<open>Strings, values and objects\<close>

definition is_ascii_upper :: "nat \<Rightarrow> bool" where
  "is_ascii_upper c \<longleftrightarrow> 0x41 \<le> c \<and> c \<le> 0x5A"

text \<open>\<^verbatim>\<open>s.trim()\<close>\<close>

definition trim :: "jsstring \<Rightarrow> jsstring" where
  "trim s = rev (dropWhile is_ws (rev (dropWhile is_ws s)))"

text \<open>
  \<^verbatim>\<open>s.replace(/\s+/g, " ")\<close>: every maximal run of whitespace becomes one space.
\<close>

function replace_ws_runs :: "jsstring \<Rightarrow> jsstring" where
  "replace_ws_runs [] = []"
| "replace_ws_runs (c # cs) =
     (if is_ws c then 0x20 # replace_ws_runs (dropWhile is_ws cs)
      else c # replace_ws_runs cs)"
  by pat_completeness auto
termination
  by (relation "measure length") (auto simp: length_dropWhile_le less_Suc_eq_le)

text \<open>
  \<^verbatim>\<open>s.split(/\s+/)\<close>: the scan keeps the piece read since the last separator; where the
  separator matches (greedily, so the whole run of whitespace) the piece is pushed and the
  scan goes on after the run; at the end of the string the last piece is pushed.
\<close>

function split_ws_from :: "jsstring \<Rightarrow> jsstring \<Rightarrow> jsstring list" where
  "split_ws_from piece [] = [piece]"
| "split_ws_from piece (c # cs) =
     (if is_ws c then piece # split_ws_from [] (dropWhile is_ws cs)
      else split_ws_from (piece @ [c]) cs)"
  by pat_completeness auto
termination
  by (relation "measure (\<lambda>(piece, s). length s)") (auto simp: length_dropWhile_le less_Suc_eq_le)

definition split_ws :: "jsstring \<Rightarrow> jsstring list" where
  "split_ws s = split_ws_from [] s"

text \<open>\<^verbatim>\<open>parts.join(sep)\<close>\<close>

fun join :: "jsstring \<Rightarrow> jsstring list \<Rightarrow> jsstring" where
  "join sep [] = []"
| "join sep [p] = p"
| "join sep (p # q # ps) = p @ sep @ join sep (q # ps)"

text \<open>\<^verbatim>\<open>s.includes(sub)\<close>\<close>

fun includes_str :: "jsstring \<Rightarrow> jsstring \<Rightarrow> bool" where
  "includes_str [] sub = (sub = [])"
| "includes_str (c # cs) sub = (take (length sub) (c # cs) = sub \<or> includes_str cs sub)"

text \<open>The decimal numeral of a non-negative integer.\<close>

fun decimal :: "nat \<Rightarrow> jsstring" where
  "decimal n = (if n < 10 then [0x30 + n] else decimal (n div 10) @ [0x30 + n mod 10])"

declare decimal.simps [simp del]

text \<open>
  A value of type \<^verbatim>\<open>unknown\<close>. The mapping code looks at a value in two ways only: its
  truthiness and \<^verbatim>\<open>String(value)\<close>. A string and \<^verbatim>\<open>undefined\<close> are modelled as they
  are; \<open>Num n\<close> is the number \<open>n\<close>, a non-negative integer below \<open>10\<^sup>2\<^sup>1\<close> (up to
  there \<^verbatim>\<open>String\<close> prints the plain decimal numeral); \<open>Other t s\<close> stands for any other value
  (null, a boolean, another number, a built-in function or object), given by its truthiness
  \<open>t\<close> and by the text \<open>s\<close> that \<^verbatim>\<open>String\<close> makes of it.
\<close>

datatype jsval = Undefined | Str jsstring | Num nat | Other bool jsstring

fun truthy :: "jsval \<Rightarrow> bool" where
  "truthy Undefined = False"
| "truthy (Str s) = (s \<noteq> [])"
| "truthy (Num n) = (n \<noteq> 0)"
| "truthy (Other t s) = t"

text \<open>\<^verbatim>\<open>String(value)\<close>\<close>

fun js_String :: "jsval \<Rightarrow> jsstring" where
  "js_String Undefined = str ''undefined''"
| "js_String (Str s) = s"
| "js_String (Num n) = decimal n"
| "js_String (Other t s) = s"

text \<open>\<^verbatim>\<open>a || b\<close>\<close>

definition js_or :: "jsval \<Rightarrow> jsval \<Rightarrow> jsval" where
  "js_or a b = (if truthy a then a else b)"

subsection \<open>Objects\<close>

text \<open>
  An object made by a literal \<^verbatim>\<open>{}\<close> is modelled by the list of its own enumerable
  properties in the order of their creation. Its prototype is \<^verbatim>\<open>Object.prototype\<close>: reading
  a property that the object does not own finds the property of that name of the
  prototype, if there is one. These are the twelve standard ones, all truthy: eleven
  built-in functions, and the accessor \<^verbatim>\<open>__proto__\<close>, which reads as the prototype object
  itself. The text that \<^verbatim>\<open>String\<close> makes of a built-in function is the engine's (V8's is
  written here); no theorem below rests on it.
\<close>

type_synonym 'v jsobject = "(jsstring \<times> 'v) list"

definition native_function :: "jsstring \<Rightarrow> jsval" where
  "native_function name = Other True (str ''function '' @ name @ str ''() { [native code] }'')"

definition Object_prototype :: "jsstring \<Rightarrow> jsval" where
  "Object_prototype k =
     (if k = str ''__proto__'' then Other True (str ''[object Object]'')
      else if k = str ''constructor'' then native_function (str ''Object'')
      else if k \<in> set [str ''__defineGetter__'', str ''__defineSetter__'', str ''hasOwnProperty'',
                        str ''__lookupGetter__'', str ''__lookupSetter__'', str ''isPrototypeOf'',
                        str ''propertyIsEnumerable'', str ''toString'', str ''valueOf'',
                        str ''toLocaleString'']
      then native_function k
      else Undefined)"

text \<open>\<^verbatim>\<open>obj[k]\<close>\<close>

definition js_get :: "jsval jsobject \<Rightarrow> jsstring \<Rightarrow> jsval" where
  "js_get obj k = (case map_of obj k of Some v \<Rightarrow> v | None \<Rightarrow> Object_prototype k)"

text \<open>
  \<^verbatim>\<open>obj[k] = v\<close> for a primitive \<open>v\<close>: an own property is overwritten in place, a new one is
  added last. The key \<^verbatim>\<open>__proto__\<close> is the prototype's setter, which ignores a primitive:
  nothing is stored.
\<close>

definition js_set :: "'v jsobject \<Rightarrow> jsstring \<Rightarrow> 'v \<Rightarrow> 'v jsobject" where
  "js_set obj k v = (if k = str ''__proto__'' then obj else AList.update k v obj)"

text \<open>
  \<^verbatim>\<open>Object.entries(obj)\<close>: the properties whose key is an array index (the canonical
  numeral of an integer up to \<open>2\<^sup>3\<^sup>2 - 2\<close>) come first, in ascending order, then the others
  in the order of their creation.
\<close>

definition digits_value :: "jsstring \<Rightarrow> nat" where
  "digits_value k = foldl (\<lambda>n c. 10 * n + (c - 0x30)) 0 k"

definition is_array_index :: "jsstring \<Rightarrow> bool" where
  "is_array_index k \<longleftrightarrow>
     k \<noteq> [] \<and> list_all is_digit k \<and> (k = [0x30] \<or> hd k \<noteq> 0x30) \<and>
     length k \<le> 10 \<and> digits_value k \<le> 4294967294"

definition Object_entries :: "'v jsobject \<Rightarrow> 'v jsobject" where
  "Object_entries obj =
     sort_key (\<lambda>(k, v). digits_value k) (filter (\<lambda>(k, v). is_array_index k) obj) @
     filter (\<lambda>(k, v). \<not> is_array_index k) obj"

section \<open>The mapper (lib/mapper.ts)\<close>

text \<open>
  \<^verbatim>\<open>toLowerCase\<close> is the lower-casing of Unicode, which is not modelled: every function
  that calls it takes it as its first argument \<open>lower\<close>. The country table
  \<^verbatim>\<open>countries.json\<close> is not among the sources either, and is the argument
  \<open>countriesData\<close> where it is read.
\<close>

record MappedAddress =
  NAME :: jsstring
  ZUSATZ :: jsstring
  STRASSE :: jsstring
  NUMMER :: jsstring
  PLZ :: jsstring
  STADT :: jsstring
  LAND :: jsval
  ADRESS_TYP :: jsstring
  REFERENZ :: jsval
  LAND_UNMAPPED_ORIGINAL :: "jsstring option"

text \<open>
  \<open>LAND\<close> is declared a string, but \<^verbatim>\<open>mapRow\<close> stores whatever the lookup in the country
  mapping returned, and \<open>REFERENZ\<close> is a number: both are values. An empty
  \<open>germanShortName\<close> stands for an absent one (either is falsy).
\<close>

type_synonym RawRow = "jsval jsobject"

record Country =
  englishShortName :: jsstring
  alpha2Code :: jsstring
  alpha3Code :: jsstring
  numeric :: nat
  germanShortName :: jsstring

text \<open>The body of the loop over the table.\<close>

definition register_country ::
  "(jsstring \<Rightarrow> jsstring) \<Rightarrow> Country \<Rightarrow> jsval jsobject \<Rightarrow> jsval jsobject" where
  "register_country lower country mapping =
     (let mapping = js_set mapping (lower (englishShortName country)) (Str (alpha3Code country));
          mapping = (if germanShortName country \<noteq> []
                     then js_set mapping (lower (germanShortName country)) (Str (alpha3Code country))
                     else mapping);
          mapping = js_set mapping (lower (alpha2Code country)) (Str (alpha3Code country))
      in js_set mapping (lower (alpha3Code country)) (Str (alpha3Code country)))"

definition buildCountryMapping :: "(jsstring \<Rightarrow> jsstring) \<Rightarrow> Country list \<Rightarrow> jsval jsobject" where
  "buildCountryMapping lower countriesData = fold (register_country lower) countriesData []"

definition DEFAULT_COLUMN_MAPPING :: "jsstring jsobject" where
  "DEFAULT_COLUMN_MAPPING =
     [(str ''Anrede'', str ''salutation''),
      (str ''Vorname'', str ''first_name''),
      (str ''Name'', str ''last_name''),
      (str ''Adresse1'', str ''street''),
      (str ''Adresse2'', str ''address_addition''),
      (str ''PLZ'', str ''postal_code''),
      (str ''Ort'', str ''city''),
      (str ''Land'', str ''country'')]"

text \<open>The bodies of the two loops of \<^verbatim>\<open>mapColumns\<close>, and the function.\<close>

definition normalize_alias ::
  "(jsstring \<Rightarrow> jsstring) \<Rightarrow> jsstring \<times> jsstring \<Rightarrow> jsval jsobject \<Rightarrow> jsval jsobject" where
  "normalize_alias lower =
     (\<lambda>(source, target) normalizedMapping. js_set normalizedMapping (lower source) (Str target))"

definition map_column ::
  "(jsstring \<Rightarrow> jsstring) \<Rightarrow> jsval jsobject \<Rightarrow> jsstring \<times> jsval \<Rightarrow> jsval jsobject
     \<Rightarrow> jsval jsobject" where
  "map_column lower normalizedMapping =
     (\<lambda>(key, value) mapped.
        let lowerKey = lower key in
        if truthy (js_get normalizedMapping lowerKey)
        then js_set mapped (js_String (js_get normalizedMapping lowerKey)) value
        else js_set mapped lowerKey value)"

definition mapColumns ::
  "(jsstring \<Rightarrow> jsstring) \<Rightarrow> RawRow \<Rightarrow> jsstring jsobject option \<Rightarrow> jsval jsobject" where
  "mapColumns lower row customMapping =
     (let mapping = (case customMapping of Some m \<Rightarrow> m | None \<Rightarrow> DEFAULT_COLUMN_MAPPING);
          normalizedMapping = fold (normalize_alias lower) (Object_entries mapping) []
      in fold (map_column lower normalizedMapping) (Object_entries row) [])"

record CountryResult =
  code :: jsval
  unmappedOriginal :: "jsstring option"

definition mapCountry :: "(jsstring \<Rightarrow> jsstring) \<Rightarrow> Country list \<Rightarrow> jsval \<Rightarrow> CountryResult" where
  "mapCountry lower countriesData country =
     (if \<not> truthy country then \<lparr>code = Str (str ''DEU''), unmappedOriginal = None\<rparr>
      else let countryStr = trim (js_String country) in
        if countryStr = [] then \<lparr>code = Str (str ''DEU''), unmappedOriginal = None\<rparr>
        else let mapped = js_get (buildCountryMapping lower countriesData) (lower countryStr) in
          if truthy mapped then \<lparr>code = mapped, unmappedOriginal = None\<rparr>
          else \<lparr>code = Str (str ''DEU''), unmappedOriginal = Some countryStr\<rparr>)"

definition createFullName :: "jsval \<Rightarrow> jsval \<Rightarrow> jsstring" where
  "createFullName firstName lastName =
     (let first = (if truthy firstName then trim (js_String firstName) else []);
          lastN = (if truthy lastName then trim (js_String lastName) else [])
      in trim (first @ str '' '' @ lastN))"

text \<open>
  The two spellings of the bulk-recipient keyword have the code units 0xDF (sharp s) and
  0xE4 (a umlaut).
\<close>

definition Grossempfaenger_sz :: jsstring where
  "Grossempfaenger_sz = str ''Gro'' @ [0xDF] @ str ''empf'' @ [0xE4] @ str ''nger''"

definition Grossempfaenger_ss :: jsstring where
  "Grossempfaenger_ss = str ''Grossempf'' @ [0xE4] @ str ''nger''"

definition mapAddressType :: "jsval \<Rightarrow> jsstring" where
  "mapAddressType addressAddition =
     (if truthy addressAddition then
        (let additionStr = js_String addressAddition in
         if includes_str additionStr (str ''Postfach'') then str ''POBOX''
         else if includes_str additionStr Grossempfaenger_sz \<or>
                 includes_str additionStr Grossempfaenger_ss
         then str ''MAJORRECIPIENT''
         else str ''HOUSE'')
      else str ''HOUSE'')"

text \<open>
  The pattern \<^verbatim>\<open>/^(.*\S)\s+(\d+[A-Za-z\-\/]?)$/\<close>. Its tail \<^verbatim>\<open>\s+(\d+[A-Za-z\-\/]?)$\<close> is
  matched from the start of a string by \<open>match_number_tail\<close>, which returns group 2. The
  three classes of the tail are disjoint, so each repetition can only succeed with all the
  code units of its class that stand there: whitespace, then digits, then at most one code
  unit of the last class, then the end.
\<close>

definition is_number_suffix :: "nat \<Rightarrow> bool" where
  "is_number_suffix c \<longleftrightarrow>
     (0x41 \<le> c \<and> c \<le> 0x5A) \<or> (0x61 \<le> c \<and> c \<le> 0x7A) \<or> c = 0x2D \<or> c = 0x2F"

definition match_number_tail :: "jsstring \<Rightarrow> jsstring option" where
  "match_number_tail xs =
     (let number = dropWhile is_ws xs; rest = dropWhile is_digit number in
      if takeWhile is_ws xs = [] \<or> takeWhile is_digit number = [] then None
      else if rest = [] \<or> (length rest = 1 \<and> is_number_suffix (hd rest)) then Some number
      else None)"

text \<open>
  One attempt with \<^verbatim>\<open>.*\<close> holding the first \<open>k\<close> code units: \<^verbatim>\<open>\S\<close> must match the
  code unit at \<open>k\<close> and the tail must match after it. The groups are the result.
\<close>

definition trailing_attempt :: "nat \<Rightarrow> jsstring \<Rightarrow> (jsstring \<times> jsstring) option" where
  "trailing_attempt k s =
     (if k < length s \<and> \<not> is_ws (s ! k)
      then map_option (\<lambda>number. (take (Suc k) s, number)) (match_number_tail (drop (Suc k) s))
      else None)"

text \<open>\<^verbatim>\<open>.*\<close> is greedy and gives back one code unit at a time.\<close>

primrec trailing_backtrack :: "nat \<Rightarrow> jsstring \<Rightarrow> (jsstring \<times> jsstring) option" where
  "trailing_backtrack 0 s = trailing_attempt 0 s"
| "trailing_backtrack (Suc k) s =
     (case trailing_attempt (Suc k) s of
        Some groups \<Rightarrow> Some groups
      | None \<Rightarrow> trailing_backtrack k s)"

text \<open>
  \<^verbatim>\<open>s.match(...)\<close>: the pattern starts at the start of the string, and \<^verbatim>\<open>.*\<close> first
  takes every code unit up to the first line terminator.
\<close>

definition trailingMatch :: "jsstring \<Rightarrow> (jsstring \<times> jsstring) option" where
  "trailingMatch s = trailing_backtrack (length (takeWhile (\<lambda>c. \<not> is_line_terminator c) s)) s"

definition splitStreetNumber :: "jsval \<Rightarrow> jsstring \<times> jsstring" where
  "splitStreetNumber street =
     (if \<not> truthy street then ([], [])
      else let s = trim (js_String street) in
        if s = [] then ([], [])
        else (case trailingMatch s of
            Some (g1, g2) \<Rightarrow> (g1, g2)
          | None \<Rightarrow>
             (let parts = split_ws s in
              if length parts \<ge> 2 \<and> list_ex is_digit (last parts)
              then (join (str '' '') (butlast parts), last parts)
              else let firstParts = split_ws s in
                if length firstParts \<ge> 2 \<and> list_ex is_digit (hd firstParts)
                then (join (str '' '') (tl firstParts), hd firstParts)
                else (s, []))))"

definition cleanValue :: "jsval \<Rightarrow> jsstring" where
  "cleanValue v = (if \<not> truthy v then [] else replace_ws_runs (trim (js_String v)))"

definition mapRow ::
  "(jsstring \<Rightarrow> jsstring) \<Rightarrow> Country list \<Rightarrow> RawRow \<Rightarrow> nat \<Rightarrow> jsstring jsobject option
     \<Rightarrow> MappedAddress" where
  "mapRow lower countriesData row index mapping =
     (let mapped = mapColumns lower row mapping;
          firstName = js_or (js_get mapped (str ''first_name'')) (Str []);
          lastName = js_or (js_get mapped (str ''last_name'')) (Str []);
          fullName = createFullName firstName lastName;
          street = js_get mapped (str ''street'');
          (strasse, nummer) = splitStreetNumber street;
          addressAddition = js_or (js_get mapped (str ''address_addition'')) (Str []);
          addressType = mapAddressType addressAddition;
          countryResult = mapCountry lower countriesData (js_get mapped (str ''country''));
          postalCode = js_get mapped (str ''postal_code'')
      in \<lparr>NAME = cleanValue (Str fullName),
          ZUSATZ = cleanValue addressAddition,
          STRASSE = cleanValue (Str strasse),
          NUMMER = cleanValue (Str nummer),
          PLZ = cleanValue postalCode,
          STADT = cleanValue (js_or (js_get mapped (str ''city'')) (Str [])),
          LAND = code countryResult,
          ADRESS_TYP = addressType,
          REFERENZ = Num (index + 1),
          LAND_UNMAPPED_ORIGINAL =
            (case unmappedOriginal countryResult of
               Some original \<Rightarrow> if original \<noteq> [] then Some original else None
             | None \<Rightarrow> None)\<rparr>)"

definition mapData ::
  "(jsstring \<Rightarrow> jsstring) \<Rightarrow> Country list \<Rightarrow> RawRow list \<Rightarrow> jsstring jsobject option
     \<Rightarrow> MappedAddress list" where
  "mapData lower countriesData rows mapping =
     map (\<lambda>(index, row). mapRow lower countriesData row index mapping) (enumerate 0 rows)"

subsection \<open>Validation\<close>

definition limits :: "(jsstring \<times> nat) list" where
  "limits =
     [(str ''NAME'', 50), (str ''ZUSATZ'', 50), (str ''STRASSE'', 40), (str ''NUMMER'', 7),
      (str ''PLZ'', 9), (str ''STADT'', 40), (str ''LAND'', 3), (str ''ADRESS_TYP'', 99),
      (str ''REFERENZ'', 20)]"

text \<open>\<^verbatim>\<open>row[col]\<close> for the column names the validator uses.\<close>

definition row_field :: "MappedAddress \<Rightarrow> jsstring \<Rightarrow> jsval" where
  "row_field row col =
     (if col = str ''NAME'' then Str (NAME row)
      else if col = str ''ZUSATZ'' then Str (ZUSATZ row)
      else if col = str ''STRASSE'' then Str (STRASSE row)
      else if col = str ''NUMMER'' then Str (NUMMER row)
      else if col = str ''PLZ'' then Str (PLZ row)
      else if col = str ''STADT'' then Str (STADT row)
      else if col = str ''LAND'' then LAND row
      else if col = str ''ADRESS_TYP'' then Str (ADRESS_TYP row)
      else if col = str ''REFERENZ'' then REFERENZ row
      else if col = str ''LAND_UNMAPPED_ORIGINAL''
      then (case LAND_UNMAPPED_ORIGINAL row of Some original \<Rightarrow> Str original | None \<Rightarrow> Undefined)
      else Undefined)"

definition unmapped_warning :: "jsstring \<Rightarrow> jsstring \<Rightarrow> jsstring" where
  "unmapped_warning original land =
     str ''LAND could not be mapped from \"'' @ original @ str ''\", defaulted to '' @ land"

definition length_warning :: "jsstring \<Rightarrow> nat \<Rightarrow> nat \<Rightarrow> jsstring" where
  "length_warning col value maxLen =
     col @ str '' exceeds max length ('' @ decimal value @ str '' > '' @ decimal maxLen @ str '')''"

definition full_address_warning :: "nat \<Rightarrow> jsstring" where
  "full_address_warning fullLength =
     str ''Full address exceeds max length ('' @ decimal fullLength @ str '' > 72)''"

definition fullAddressFields :: "jsstring list" where
  "fullAddressFields =
     [str ''NAME'', str ''ZUSATZ'', str ''STRASSE'', str ''NUMMER'', str ''PLZ'', str ''STADT'']"

definition fullAddress :: "MappedAddress \<Rightarrow> jsstring" where
  "fullAddress row =
     join (str '' '')
       (filter (\<lambda>s. s \<noteq> []) (map (\<lambda>key. trim (js_String (row_field row key))) fullAddressFields))"

text \<open>The body of the loop over the limits, and the validator.\<close>

definition check_limit :: "MappedAddress \<Rightarrow> jsstring \<times> nat \<Rightarrow> jsstring list \<Rightarrow> jsstring list" where
  "check_limit row =
     (\<lambda>(col, maxLen) warnings.
        if col = str ''LAND_UNMAPPED_ORIGINAL'' then warnings
        else let value = length (js_String (row_field row col)) in
          if maxLen \<noteq> 0 \<and> value > maxLen
          then warnings @ [length_warning col value maxLen]
          else warnings)"

definition validateMaxLengths :: "MappedAddress \<Rightarrow> jsstring list" where
  "validateMaxLengths row =
     (let warnings =
            (case LAND_UNMAPPED_ORIGINAL row of
               Some original \<Rightarrow>
                 if original \<noteq> [] then [unmapped_warning original (js_String (LAND row))] else []
             | None \<Rightarrow> []);
          warnings = fold (check_limit row) limits warnings;
          fullLength = length (fullAddress row)
      in if fullLength > 72 then warnings @ [full_address_warning fullLength] else warnings)"


section \<open>The application (App.tsx)\<close>

record TargetField =
  key :: jsstring
  label :: jsstring
  required :: bool

definition TARGET_FIELDS :: "TargetField list" where
  "TARGET_FIELDS =
     [\<lparr>key = str ''salutation'', label = str ''Anrede'', required = False\<rparr>,
      \<lparr>key = str ''first_name'', label = str ''Vorname'', required = True\<rparr>,
      \<lparr>key = str ''last_name'', label = str ''Nachname'', required = True\<rparr>,
      \<lparr>key = str ''street'', label = str ''Stra'' @ [0xDF] @ str ''e'', required = True\<rparr>,
      \<lparr>key = str ''address_addition'', label = str ''Adresszusatz'', required = False\<rparr>,
      \<lparr>key = str ''postal_code'', label = str ''PLZ'', required = True\<rparr>,
      \<lparr>key = str ''city'', label = str ''Ort'', required = True\<rparr>,
      \<lparr>key = str ''country'', label = str ''Land'', required = True\<rparr>]"

text \<open>The parts of the component's state that re-mapping and deleting write.\<close>

record AppState =
  mappedData :: "MappedAddress list"
  warnings :: "nat \<rightharpoonup> jsstring list"
  error :: jsstring

definition uniqueness_warning :: jsstring where
  "uniqueness_warning = str ''REFERENZ must be unique''"

text \<open>
  The warnings object is a map from the row index. \<^verbatim>\<open>refIndexMap\<close> is a \<^verbatim>\<open>Map\<close>: its
  entries stay in the order in which their keys were first set.
\<close>

text \<open>The body of the loop over the rows: the row's own warnings, and its index by reference.\<close>

definition collect_row ::
  "nat \<times> MappedAddress \<Rightarrow> (nat \<rightharpoonup> jsstring list) \<times> (jsval \<times> nat list) list
     \<Rightarrow> (nat \<rightharpoonup> jsstring list) \<times> (jsval \<times> nat list) list" where
  "collect_row =
     (\<lambda>(index, row) (warningsMap, refIndexMap).
        let rowWarnings = validateMaxLengths row;
            warningsMap = (if length rowWarnings > 0
                           then warningsMap(index \<mapsto> rowWarnings)
                           else warningsMap);
            indices = (case map_of refIndexMap (REFERENZ row) of
                         Some indices \<Rightarrow> indices
                       | None \<Rightarrow> [])
        in (warningsMap, AList.update (REFERENZ row) (indices @ [index]) refIndexMap))"

text \<open>The bodies of the loops over the references and over the indices of one reference.\<close>

definition mark_duplicate :: "nat \<Rightarrow> (nat \<rightharpoonup> jsstring list) \<Rightarrow> (nat \<rightharpoonup> jsstring list)" where
  "mark_duplicate idx warningsMap =
     warningsMap(idx \<mapsto>
       (case warningsMap idx of Some ws \<Rightarrow> ws | None \<Rightarrow> []) @ [uniqueness_warning])"

definition mark_duplicates ::
  "jsval \<times> nat list \<Rightarrow> (nat \<rightharpoonup> jsstring list) \<Rightarrow> (nat \<rightharpoonup> jsstring list)" where
  "mark_duplicates =
     (\<lambda>(ref, indices) warningsMap.
        if length indices > 1 then fold mark_duplicate indices warningsMap else warningsMap)"

definition buildWarnings :: "MappedAddress list \<Rightarrow> (nat \<rightharpoonup> jsstring list)" where
  "buildWarnings rows =
     (let (warningsMap, refIndexMap) = fold collect_row (enumerate 0 rows) (Map.empty, [])
      in fold mark_duplicates refIndexMap warningsMap)"

definition buildMapping :: "jsval jsobject \<Rightarrow> jsstring jsobject" where
  "buildMapping selections =
     fold (\<lambda>(target, source) mapping.
             if truthy source then js_set mapping (js_String source) target else mapping)
       (Object_entries selections) []"

text \<open>The required fields for which \<^verbatim>\<open>!selections[f.key]\<close> holds.\<close>

definition missingRequired :: "jsval jsobject \<Rightarrow> TargetField list" where
  "missingRequired selections =
     filter (\<lambda>f. required f \<and> \<not> truthy (js_get selections (key f))) TARGET_FIELDS"

definition recalcMapping ::
  "(jsstring \<Rightarrow> jsstring) \<Rightarrow> Country list \<Rightarrow> RawRow list \<Rightarrow> jsval jsobject \<Rightarrow> AppState
     \<Rightarrow> AppState" where
  "recalcMapping lower countriesData data selections st =
     (if data = [] then st\<lparr>mappedData := [], warnings := Map.empty\<rparr>
      else if length (missingRequired selections) > 0
      then st\<lparr>error := str ''Please map required fields: '' @
                           join (str '', '') (map label (missingRequired selections)),
              mappedData := [], warnings := Map.empty\<rparr>
      else let mapping = buildMapping selections;
               mapped = mapData lower countriesData data (Some mapping)
           in st\<lparr>error := [], mappedData := mapped, warnings := buildWarnings mapped\<rparr>)"

text \<open>\<^verbatim>\<open>prev[rowIndex]\<close> is undefined exactly when the index is out of range.\<close>

definition handleDeleteRow :: "nat \<Rightarrow> AppState \<Rightarrow> AppState" where
  "handleDeleteRow rowIndex st =
     (let prev = mappedData st in
      if \<not> rowIndex < length prev then st
      else let filtered = map snd (filter (\<lambda>(idx, row). idx \<noteq> rowIndex) (enumerate 0 prev));
               reindexed = map (\<lambda>(idx, row). row\<lparr>REFERENZ := Num (idx + 1)\<rparr>)
                             (enumerate 0 filtered)
           in st\<lparr>mappedData := reindexed, warnings := buildWarnings reindexed\<rparr>)"

section \<open>Concrete inputs\<close>

text \<open>
  Lower-casing of the letters A to Z only: what \<^verbatim>\<open>toLowerCase\<close> does to a string of ASCII
  characters. The concrete examples below use it where a lower-casing function is needed,
  and a theorem about concrete ASCII keys asks of \<open>lower\<close> no more than to agree with it
  on ASCII strings.
\<close>

definition ascii_lower :: "jsstring \<Rightarrow> jsstring" where
  "ascii_lower s = map (\<lambda>c. if is_ascii_upper c then c + 0x20 else c) s"

definition lower_on_ascii :: "(jsstring \<Rightarrow> jsstring) \<Rightarrow> bool" where
  "lower_on_ascii lower \<longleftrightarrow> (\<forall>s. list_all (\<lambda>c. c < 0x80) s \<longrightarrow> lower s = ascii_lower s)"

definition germany :: Country where
  "germany = \<lparr>englishShortName = str ''Germany'', alpha2Code = str ''DE'',
     alpha3Code = str ''DEU'', numeric = 276, germanShortName = str ''Deutschland''\<rparr>"

definition s_umlauts :: jsstring where
  "s_umlauts = [0xE4, 0xF6, 0xFC, 0xDF, 0x20AC, 0x22]"

definition row0 :: RawRow where
  "row0 = [(str ''Vorname'', Str (str ''Max'')), (str ''Name'', Str (str ''Mustermann'')),
           (str ''Adresse1'', Str (str ''Blumenstra'' @ [0xDF] @ str ''e 5'')),
           (str ''PLZ'', Str (str ''10115'')), (str ''Ort'', Str (str ''Berlin'')),
           (str ''Land'', Str (str ''Deutschland''))]"

definition address0 :: MappedAddress where
  "address0 = \<lparr>NAME = str ''Max Mustermann'', ZUSATZ = [],
     STRASSE = str ''Blumenstra'' @ [0xDF] @ str ''e'', NUMMER = str ''5'', PLZ = str ''10115'',
     STADT = str ''Berlin'', LAND = Str (str ''DEU''), ADRESS_TYP = str ''HOUSE'',
     REFERENZ = Num 1, LAND_UNMAPPED_ORIGINAL = None\<rparr>"

definition selections_partial :: "jsval jsobject" where
  "selections_partial =
     [(str ''first_name'', Str (str ''Vorname'')), (str ''last_name'', Undefined),
      (str ''street'', Str (str ''Adresse1'')), (str ''city'', Str (str ''Ort''))]"

definition state0 :: AppState where
  "state0 = \<lparr>mappedData = [address0], warnings = Map.empty(0 \<mapsto> [uniqueness_warning]), error = []\<rparr>"

definition address1 :: MappedAddress where
  "address1 = address0\<lparr>NAME := replicate 51 0x41, REFERENZ := Num 2\<rparr>"

definition address2 :: MappedAddress where
  "address2 = address0\<lparr>STADT := str ''Hamburg'', REFERENZ := Num 3\<rparr>"

definition state1 :: AppState where
  "state1 = \<lparr>mappedData = [address0, address1, address2], warnings = Map.empty, error = []\<rparr>"

definition row_two_spaces :: RawRow where
  "row_two_spaces = [(str ''Land'', Str (str ''Costa  Rica''))]"

definition row_case_collision :: RawRow where
  "row_case_collision = [(str ''Name'', Str (str ''a'')), (str ''NAME'', Str (str ''b''))]"

definition Musterstrasse :: jsstring where
  "Musterstrasse = str ''Musterstra'' @ [0xDF] @ str ''e''"

section \<open>Notions used in the statements\<close>

text \<open>
  The keys that \<^verbatim>\<open>buildCountryMapping\<close> registers for one entry of the table, and what
  it means that the table resolves a key to a code: some entry registers the key, and
  every entry that registers it has that code.
\<close>

definition country_keys :: "(jsstring \<Rightarrow> jsstring) \<Rightarrow> Country \<Rightarrow> jsstring list" where
  "country_keys lower c =
     lower (englishShortName c) #
     (if germanShortName c \<noteq> [] then [lower (germanShortName c)] else []) @
     [lower (alpha2Code c), lower (alpha3Code c)]"

definition resolves :: "(jsstring \<Rightarrow> jsstring) \<Rightarrow> Country list \<Rightarrow> jsstring \<Rightarrow> jsstring \<Rightarrow> bool" where
  "resolves lower countriesData k a \<longleftrightarrow>
     list_ex (\<lambda>c. k \<in> set (country_keys lower c)) countriesData \<and>
     list_all (\<lambda>c. k \<in> set (country_keys lower c) \<longrightarrow> alpha3Code c = a) countriesData"

text \<open>
  What the first loop of \<^verbatim>\<open>buildWarnings\<close> computes: the warnings of the rows that have
  any, and for a reference the indices of the rows that carry it.
\<close>

definition rows_warnings :: "MappedAddress list \<Rightarrow> (nat \<rightharpoonup> jsstring list)" where
  "rows_warnings rows k =
     (if k < length rows \<and> validateMaxLengths (rows ! k) \<noteq> []
      then Some (validateMaxLengths (rows ! k)) else None)"

definition ref_indices :: "MappedAddress list \<Rightarrow> jsval \<Rightarrow> nat list" where
  "ref_indices rows r = filter (\<lambda>k. REFERENZ (rows ! k) = r) [0 ..< length rows]"

text \<open>
  A string is whitespace-normalized when it neither starts nor ends with whitespace and
  every whitespace in it is one space followed by a code unit that is not whitespace.
\<close>

fun single_spaces :: "jsstring \<Rightarrow> bool" where
  "single_spaces [] = True"
| "single_spaces [c] = (\<not> is_ws c)"
| "single_spaces (c # d # s) = ((is_ws c \<longrightarrow> c = 0x20 \<and> \<not> is_ws d) \<and> single_spaces (d # s))"

definition whitespace_normalized :: "jsstring \<Rightarrow> bool" where
  "whitespace_normalized s \<longleftrightarrow> (s = [] \<or> \<not> is_ws (hd s)) \<and> single_spaces s"

text \<open>
  The target of a row key under an alias table, in the words of the specification: the
  target of the alias that the lower-cased key matches (the last such alias, if several
  lower-case to the same key), else the lower-cased key itself.
\<close>

definition column_target :: "(jsstring \<Rightarrow> jsstring) \<Rightarrow> jsstring jsobject \<Rightarrow> jsstring \<Rightarrow> jsstring" where
  "column_target lower aliases rowKey =
     (case find (\<lambda>(source, target). lower source = lower rowKey)
             (rev (Object_entries aliases)) of
        Some (source, target) \<Rightarrow> target
      | None \<Rightarrow> lower rowKey)"

text \<open>
  The notions of the street rules. The last token of a string is its longest suffix free
  of whitespace; the part before the last token ends before the whitespace that precedes
  that token. A house number is a token of digits with an optional single trailing letter,
  hyphen or slash.
\<close>

definition last_token :: "jsstring \<Rightarrow> jsstring" where
  "last_token s = rev (takeWhile (\<lambda>c. \<not> is_ws c) (rev s))"

definition before_last_token :: "jsstring \<Rightarrow> jsstring" where
  "before_last_token s = rev (dropWhile is_ws (dropWhile (\<lambda>c. \<not> is_ws c) (rev s)))"

definition is_house_number :: "jsstring \<Rightarrow> bool" where
  "is_house_number n \<longleftrightarrow>
     n \<noteq> [] \<and>
     (list_all is_digit n \<or>
      (butlast n \<noteq> [] \<and> list_all is_digit (butlast n) \<and> is_number_suffix (last n)))"

text \<open>The four rules as the specification words them.\<close>

definition splitStreetNumber_claimed :: "jsstring \<Rightarrow> jsstring \<times> jsstring" where
  "splitStreetNumber_claimed street =
     (let s = trim street; tokens = split_ws s in
      if list_ex is_ws s \<and> is_house_number (last_token s)
      then (before_last_token s, last_token s)
      else if list_ex is_digit (last tokens)
      then (join (str '' '') (butlast tokens), last tokens)
      else if list_ex is_digit (hd tokens)
      then (join (str '' '') (tl tokens), hd tokens)
      else (s, []))"

text \<open>
  The four rules as the code applies them: rule (a) also needs the part before the last
  token to be free of line terminators, and rules (b) and (c) need two tokens at least.
\<close>

definition splitStreetNumber_rules :: "jsstring \<Rightarrow> jsstring \<times> jsstring" where
  "splitStreetNumber_rules street =
     (let s = trim street; tokens = split_ws s in
      if list_ex is_ws s \<and> is_house_number (last_token s) \<and>
         \<not> list_ex is_line_terminator (before_last_token s)
      then (before_last_token s, last_token s)
      else if length tokens \<ge> 2 \<and> list_ex is_digit (last tokens)
      then (join (str '' '') (butlast tokens), last tokens)
      else if length tokens \<ge> 2 \<and> list_ex is_digit (hd tokens)
      then (join (str '' '') (tl tokens), hd tokens)
      else (s, []))"

section \<open>Round trip through Windows-1252\<close>

lemma cp1252_high_entries:
  "list_all (\<lambda>(b, c). cp1252_byte c = b \<and> \<not> b \<le> 0x7f \<and> \<not> 0xa0 \<le> b \<and> c < 0xD800) cp1252_high"
  by (simp add: cp1252_high_def cp1252_byte_def CP1252_CODEPOINT_TO_BYTE_def)

lemma cp1252_high_lookup:
  assumes "map_of cp1252_high b = Some c"
  shows "cp1252_byte c = b \<and> \<not> b \<le> 0x7f \<and> \<not> 0xa0 \<le> b \<and> c < 0xD800"
proof -
  from assms have "(b, c) \<in> set cp1252_high" by (rule map_of_SomeD)
  with cp1252_high_entries show ?thesis
    unfolding list_all_iff by blast
qed

lemma cp1252_byte_of_decoded:
  assumes "cp1252_decode_byte b = Some c"
  shows "cp1252_byte c = b \<and> b < 256 \<and> c < 0xD800"
proof (cases "b \<le> 0x7f \<or> (0xa0 \<le> b \<and> b \<le> 0xff)")
  case True
  with assms have "c = b" by (simp add: cp1252_decode_byte_def)
  with True show ?thesis by (auto simp: cp1252_byte_def)
next
  case False
  with assms have "map_of cp1252_high b = Some c" by (simp add: cp1252_decode_byte_def)
  from cp1252_high_lookup [OF this] show ?thesis by simp
qed

lemma cp1252_representable_byte:
  assumes "cp1252_representable c"
  shows "cp1252_decode_byte (cp1252_byte c mod 256) = Some c \<and> c < 0xD800"
proof -
  from assms obtain b where "cp1252_decode_byte b = Some c"
    unfolding cp1252_representable_def list_ex_iff by blast
  with cp1252_byte_of_decoded [OF this] show ?thesis by simp
qed

lemma code_points_no_surrogate: "list_all (\<lambda>c. c < 0xD800) s \<Longrightarrow> code_points s = s"
  by (induction s rule: code_points.induct) auto

lemma fromCP1252Bytes_map:
  "list_all (\<lambda>c. cp1252_decode_byte (f c) = Some c) s \<Longrightarrow> fromCP1252Bytes (map f s) = Some s"
  by (induction s) auto

lemma cp1252_representable_umlauts:
  "cp1252_representable 0xE4" "cp1252_representable 0xF6" "cp1252_representable 0xFC"
  "cp1252_representable 0xDF" "cp1252_representable 0x20AC" "cp1252_representable 0x22"
  unfolding cp1252_representable_def list_ex_iff
  by (rule bexI [of _ "0xE4"], simp add: cp1252_decode_byte_def, simp,
      rule bexI [of _ "0xF6"], simp add: cp1252_decode_byte_def, simp,
      rule bexI [of _ "0xFC"], simp add: cp1252_decode_byte_def, simp,
      rule bexI [of _ "0xDF"], simp add: cp1252_decode_byte_def, simp,
      rule bexI [of _ "0x80"], simp add: cp1252_decode_byte_def cp1252_high_def, simp,
      rule bexI [of _ "0x22"], simp add: cp1252_decode_byte_def, simp)

text \<open>
  Claim C8. A string all of whose characters are representable in Windows-1252, in
  particular any string over a umlaut, o umlaut, u umlaut, sharp s, the euro sign and the
  double quote, is recovered exactly by decoding the bytes that \<^verbatim>\<open>toCP1252Bytes\<close> makes
  of it with the codepage.
\<close>

theorem cp1252_round_trip:
  "(list_all cp1252_representable s \<longrightarrow> fromCP1252Bytes (toCP1252Bytes s) = Some s) \<and>
   (list_all (\<lambda>c. c \<in> {0xE4, 0xF6, 0xFC, 0xDF, 0x20AC, 0x22}) s \<longrightarrow>
      fromCP1252Bytes (toCP1252Bytes s) = Some s)"
proof -
  have main: "fromCP1252Bytes (toCP1252Bytes t) = Some t" if "list_all cp1252_representable t" for t
  proof -
    from that have a: "list_all (\<lambda>c. cp1252_decode_byte (cp1252_byte c mod 256) = Some c) t"
      and b: "list_all (\<lambda>c. c < 0xD800) t"
      using cp1252_representable_byte by (auto simp: list_all_iff)
    from b have "code_points t = t" by (rule code_points_no_surrogate)
    with fromCP1252Bytes_map [OF a] show ?thesis by (simp add: toCP1252Bytes_def)
  qed
  have "list_all cp1252_representable s"
    if "list_all (\<lambda>c. c \<in> {0xE4, 0xF6, 0xFC, 0xDF, 0x20AC, 0x22}) s"
    using that cp1252_representable_umlauts by (auto simp: list_all_iff)
  with main show ?thesis by blast
qed

theorem cp1252_round_trip_witness:
  "list_all cp1252_representable s_umlauts \<and>
   toCP1252Bytes s_umlauts = [0xE4, 0xF6, 0xFC, 0xDF, 0x80, 0x22] \<and>
   fromCP1252Bytes (toCP1252Bytes s_umlauts) = Some s_umlauts"
proof -
  have r: "list_all cp1252_representable s_umlauts"
    using cp1252_representable_umlauts by (simp add: s_umlauts_def)
  have e: "toCP1252Bytes s_umlauts = [0xE4, 0xF6, 0xFC, 0xDF, 0x80, 0x22]"
    by (simp add: s_umlauts_def toCP1252Bytes_def cp1252_byte_def CP1252_CODEPOINT_TO_BYTE_def)
  from cp1252_round_trip [of s_umlauts] r e show ?thesis by blast
qed

section \<open>The country lookup\<close>

lemma map_of_js_set:
  "map_of (js_set m k v) k' =
     (if k = str ''__proto__'' then map_of m k' else ((map_of m)(k \<mapsto> v)) k')"
  by (simp add: js_set_def update_conv')

lemma find_append_cases:
  "find P (xs @ ys) = (case find P xs of None \<Rightarrow> find P ys | Some x \<Rightarrow> Some x)"
  by (induction xs) auto

lemma find_Some_set: "find P xs = Some x \<Longrightarrow> P x \<and> x \<in> set xs"
  by (induction xs) (auto split: if_splits)

lemma map_of_js_set_other:
  "k \<noteq> str ''__proto__'' \<Longrightarrow>
     map_of (js_set m k' v) k = (if k' = k then Some v else map_of m k)"
  by (simp add: js_set_def update_conv')

lemma map_of_register_country:
  assumes "k \<noteq> str ''__proto__''"
  shows "map_of (register_country lower c m) k =
         (if k \<in> set (country_keys lower c) then Some (Str (alpha3Code c)) else map_of m k)"
  by (simp add: register_country_def Let_def map_of_js_set_other [OF assms] country_keys_def)

lemma map_of_fold_register_country:
  assumes "k \<noteq> str ''__proto__''"
  shows "map_of (fold (register_country lower) cs m) k =
     (case find (\<lambda>c. k \<in> set (country_keys lower c)) (rev cs) of
        Some c \<Rightarrow> Some (Str (alpha3Code c))
      | None \<Rightarrow> map_of m k)"
proof (induction cs arbitrary: m)
  case Nil
  then show ?case by simp
next
  case (Cons c cs)
  show ?case
    by (simp add: Cons.IH find_append_cases map_of_register_country [OF assms]
        split: option.splits)
qed

lemma map_of_buildCountryMapping:
  assumes "k \<noteq> str ''__proto__''"
  shows "map_of (buildCountryMapping lower cs) k =
     (case find (\<lambda>c. k \<in> set (country_keys lower c)) (rev cs) of
        Some c \<Rightarrow> Some (Str (alpha3Code c))
      | None \<Rightarrow> None)"
  unfolding buildCountryMapping_def
  by (simp add: map_of_fold_register_country [OF assms] split: option.splits)

lemma resolves_lookup:
  assumes "resolves lower cs k a" and "k \<noteq> str ''__proto__''"
  shows "js_get (buildCountryMapping lower cs) k = Str a"
proof -
  from assms(1) obtain c0 where "c0 \<in> set cs" "k \<in> set (country_keys lower c0)"
    unfolding resolves_def list_ex_iff by blast
  then have "find (\<lambda>c. k \<in> set (country_keys lower c)) (rev cs) \<noteq> None"
    by (auto simp: find_None_iff)
  then obtain c where f: "find (\<lambda>c. k \<in> set (country_keys lower c)) (rev cs) = Some c"
    by blast
  then have "c \<in> set cs" "k \<in> set (country_keys lower c)"
    using find_Some_set [OF f] by auto
  with assms(1) have "alpha3Code c = a"
    unfolding resolves_def list_all_iff by blast
  with f show ?thesis
    by (simp add: js_get_def map_of_buildCountryMapping [OF assms(2)])
qed

lemma resolves_germany: "resolves ascii_lower [germany] (str ''deutschland'') (str ''DEU'')"
  by (simp add: resolves_def country_keys_def germany_def ascii_lower_def is_ascii_upper_def str_def)

lemma unregistered_lookup:
  assumes "\<not> list_ex (\<lambda>c. k \<in> set (country_keys lower c)) cs" and "k \<noteq> str ''__proto__''"
  shows "js_get (buildCountryMapping lower cs) k = Object_prototype k"
proof -
  from assms(1) have "find (\<lambda>c. k \<in> set (country_keys lower c)) (rev cs) = None"
    by (auto simp: find_None_iff list_ex_iff)
  then show ?thesis
    by (simp add: js_get_def map_of_buildCountryMapping [OF assms(2)])
qed

lemma lower_ascii:
  "lower_on_ascii lower \<Longrightarrow> list_all (\<lambda>c. c < 0x80) s \<Longrightarrow> lower s = ascii_lower s"
  by (simp add: lower_on_ascii_def)

lemma mapColumns_row0:
  assumes "lower_on_ascii lower"
  shows "mapColumns lower row0 None =
     [(str ''first_name'', Str (str ''Max'')), (str ''last_name'', Str (str ''Mustermann'')),
      (str ''street'', Str (str ''Blumenstra'' @ [0xDF] @ str ''e 5'')),
      (str ''postal_code'', Str (str ''10115'')), (str ''city'', Str (str ''Berlin'')),
      (str ''country'', Str (str ''Deutschland''))]"
  by (simp add: mapColumns_def normalize_alias_def map_column_def row0_def
      DEFAULT_COLUMN_MAPPING_def Object_entries_def is_array_index_def is_digit_def str_def
      lower_ascii [OF assms] ascii_lower_def is_ascii_upper_def js_set_def js_get_def
      Object_prototype_def Let_def)

lemma mapCountry_Deutschland:
  assumes "lower_on_ascii lower" and "resolves lower cs (str ''deutschland'') (str ''DEU'')"
  shows "mapCountry lower cs (Str (str ''Deutschland'')) =
           \<lparr>code = Str (str ''DEU''), unmappedOriginal = None\<rparr>"
proof -
  have t: "trim (str ''Deutschland'') = str ''Deutschland''"
    by (simp add: trim_def str_def is_ws_def)
  have l: "lower (str ''Deutschland'') = str ''deutschland''"
    by (simp add: lower_ascii [OF assms(1)] str_def ascii_lower_def is_ascii_upper_def)
  have "js_get (buildCountryMapping lower cs) (str ''deutschland'') = Str (str ''DEU'')"
    by (rule resolves_lookup [OF assms(2)]) (simp add: str_def)
  then show ?thesis
    by (simp add: mapCountry_def t l) (simp add: str_def)
qed

lemmas string_eval = str_def is_ws_def is_line_terminator_def is_digit_def is_number_suffix_def
  trim_def split_ws_def trailingMatch_def trailing_attempt_def match_number_tail_def

lemma splitStreetNumber_Blumenstrasse:
  "splitStreetNumber (Str (str ''Blumenstra'' @ [0xDF] @ str ''e 5'')) =
     (str ''Blumenstra'' @ [0xDF] @ str ''e'', str ''5'')"
  by (simp add: splitStreetNumber_def string_eval)

lemma decimal_digit: "n < 10 \<Longrightarrow> decimal n = [0x30 + n]"
  by (simp add: decimal.simps)

lemma validateMaxLengths_address0: "validateMaxLengths address0 = []"
  by (simp add: validateMaxLengths_def check_limit_def address0_def limits_def row_field_def
      fullAddress_def fullAddressFields_def str_def trim_def is_ws_def decimal_digit)


section \<open>Re-mapping with a required field unassigned\<close>

text \<open>
  Claim C7. When the batch of raw rows is not empty and some required field (first_name,
  last_name, street, postal_code, city, country) has no source column selected, re-mapping
  leaves no mapped record and no warning, and sets the one error message that lists the
  labels of all the missing required fields.
\<close>

theorem recalcMapping_missing_required:
  assumes "data \<noteq> []"
    and "\<exists>f \<in> set TARGET_FIELDS. required f \<and> \<not> truthy (js_get selections (key f))"
  shows "mappedData (recalcMapping lower countriesData data selections st) = [] \<and>
         warnings (recalcMapping lower countriesData data selections st) = Map.empty \<and>
         error (recalcMapping lower countriesData data selections st) =
           str ''Please map required fields: '' @
           join (str '', '')
             (map label (filter (\<lambda>f. required f \<and> \<not> truthy (js_get selections (key f)))
                TARGET_FIELDS)) \<and>
         map key (filter required TARGET_FIELDS) =
           [str ''first_name'', str ''last_name'', str ''street'', str ''postal_code'',
            str ''city'', str ''country'']"
proof -
  from assms(2) have "missingRequired selections \<noteq> []"
    unfolding missingRequired_def filter_empty_conv by blast
  then have "length (missingRequired selections) > 0" by simp
  with assms(1) have
    "recalcMapping lower countriesData data selections st =
       st\<lparr>error := str ''Please map required fields: '' @
                      join (str '', '') (map label (missingRequired selections)),
          mappedData := [], warnings := Map.empty\<rparr>"
    by (simp add: recalcMapping_def)
  moreover have "map key (filter required TARGET_FIELDS) =
           [str ''first_name'', str ''last_name'', str ''street'', str ''postal_code'',
            str ''city'', str ''country'']"
    by (simp add: TARGET_FIELDS_def)
  ultimately show ?thesis by (simp add: missingRequired_def)
qed

lemma missing_partial:
  "filter (\<lambda>f. required f \<and> \<not> truthy (js_get selections_partial (key f))) TARGET_FIELDS =
     [\<lparr>key = str ''last_name'', label = str ''Nachname'', required = True\<rparr>,
      \<lparr>key = str ''postal_code'', label = str ''PLZ'', required = True\<rparr>,
      \<lparr>key = str ''country'', label = str ''Land'', required = True\<rparr>]"
  by (simp add: TARGET_FIELDS_def selections_partial_def js_get_def str_def Object_prototype_def)

theorem recalcMapping_missing_required_witness:
  "[row0] \<noteq> [] \<and>
   mappedData (recalcMapping ascii_lower [germany] [row0] selections_partial state0) = [] \<and>
   warnings (recalcMapping ascii_lower [germany] [row0] selections_partial state0) = Map.empty \<and>
   error (recalcMapping ascii_lower [germany] [row0] selections_partial state0) =
     str ''Please map required fields: Nachname, PLZ, Land''"
proof -
  have ex: "\<exists>f \<in> set TARGET_FIELDS. required f \<and> \<not> truthy (js_get selections_partial (key f))"
  proof -
    have "\<lparr>key = str ''last_name'', label = str ''Nachname'', required = True\<rparr>
            \<in> set (filter (\<lambda>f. required f \<and> \<not> truthy (js_get selections_partial (key f))) TARGET_FIELDS)"
      unfolding missing_partial by simp
    then show ?thesis unfolding set_filter by blast
  qed
  have ne: "[row0] \<noteq> []" by simp
  from recalcMapping_missing_required [OF ne ex, of ascii_lower "[germany]" state0]
  show ?thesis
    unfolding missing_partial by (simp add: str_def)
qed

section \<open>The validator over a batch\<close>

lemma check_limit_append: "check_limit row e w = w @ check_limit row e []"
  by (cases e) (simp add: check_limit_def Let_def)

lemma fold_check_limit:
  "fold (check_limit row) ls w = w @ concat (map (\<lambda>e. check_limit row e []) ls)"
proof (induction ls arbitrary: w)
  case Nil
  then show ?case by simp
next
  case (Cons e ls)
  have "fold (check_limit row) (e # ls) w = fold (check_limit row) ls (w @ check_limit row e [])"
    using check_limit_append [of row e w] by simp
  then show ?case by (simp add: Cons.IH)
qed

lemma set_validateMaxLengths:
  "set (validateMaxLengths row) =
     (case LAND_UNMAPPED_ORIGINAL row of
        Some original \<Rightarrow>
          if original \<noteq> [] then {unmapped_warning original (js_String (LAND row))} else {}
      | None \<Rightarrow> {}) \<union>
     (\<Union>e \<in> set limits. set (check_limit row e [])) \<union>
     (if length (fullAddress row) > 72 then {full_address_warning (length (fullAddress row))}
      else {})"
  by (auto simp: validateMaxLengths_def Let_def fold_check_limit split: option.splits)

lemma uniqueness_warning_not_validate:
  "uniqueness_warning \<notin> set (validateMaxLengths row)"
  by (simp add: set_validateMaxLengths limits_def check_limit_def Let_def uniqueness_warning_def
      unmapped_warning_def length_warning_def full_address_warning_def str_def
      split: option.splits)


lemma enumerate_snoc: "enumerate n (xs @ [x]) = enumerate n xs @ [(n + length xs, x)]"
  by (simp add: enumerate_append_eq)

lemma ref_indices_snoc:
  "ref_indices (rows @ [x]) r =
     ref_indices rows r @ (if REFERENZ x = r then [length rows] else [])"
proof -
  have "filter (\<lambda>k. REFERENZ ((rows @ [x]) ! k) = r) [0 ..< length rows] =
        filter (\<lambda>k. REFERENZ (rows ! k) = r) [0 ..< length rows]"
    by (rule filter_cong) (auto simp: nth_append)
  then show ?thesis by (simp add: ref_indices_def)
qed

lemma rows_warnings_snoc:
  "rows_warnings (rows @ [x]) =
     (if validateMaxLengths x \<noteq> [] then (rows_warnings rows)(length rows \<mapsto> validateMaxLengths x)
      else rows_warnings rows)"
  by (rule ext) (auto simp: rows_warnings_def nth_append)

lemma collect_rows:
  "\<exists>refIndexMap.
     fold collect_row (enumerate 0 rows) (Map.empty, []) = (rows_warnings rows, refIndexMap) \<and>
     distinct (map fst refIndexMap) \<and>
     (\<forall>r. map_of refIndexMap r =
        (if ref_indices rows r = [] then None else Some (ref_indices rows r)))"
proof (induction rows rule: rev_induct)
  case Nil
  show ?case by (simp add: ref_indices_def rows_warnings_def fun_eq_iff)
next
  case (snoc x rows)
  then obtain rim where
    f: "fold collect_row (enumerate 0 rows) (Map.empty, []) = (rows_warnings rows, rim)"
    and d: "distinct (map fst rim)"
    and m: "\<And>r. map_of rim r = (if ref_indices rows r = [] then None else Some (ref_indices rows r))"
    by blast
  let ?rim = "AList.update (REFERENZ x) (ref_indices rows (REFERENZ x) @ [length rows]) rim"
  have ind: "(case map_of rim (REFERENZ x) of Some indices \<Rightarrow> indices | None \<Rightarrow> []) =
      ref_indices rows (REFERENZ x)"
    by (simp add: m)
  have "fold collect_row (enumerate 0 (rows @ [x])) (Map.empty, []) =
      collect_row (length rows, x) (rows_warnings rows, rim)"
    by (simp add: enumerate_snoc f)
  also have "\<dots> = (rows_warnings (rows @ [x]), ?rim)"
    by (simp add: collect_row_def Let_def ind rows_warnings_snoc)
  finally have 1: "fold collect_row (enumerate 0 (rows @ [x])) (Map.empty, []) =
      (rows_warnings (rows @ [x]), ?rim)" .
  have 2: "distinct (map fst ?rim)" using d by (rule distinct_update)
  have 3: "map_of ?rim r =
      (if ref_indices (rows @ [x]) r = [] then None else Some (ref_indices (rows @ [x]) r))" for r
    by (simp add: update_conv' m ref_indices_snoc)
  from 1 2 3 show ?case by blast
qed

lemma fold_mark_duplicate:
  "distinct indices \<Longrightarrow>
   fold mark_duplicate indices wm k =
     (if k \<in> set indices
      then Some ((case wm k of Some ws \<Rightarrow> ws | None \<Rightarrow> []) @ [uniqueness_warning])
      else wm k)"
  by (induction indices arbitrary: wm) (auto simp: mark_duplicate_def)

lemma mark_duplicates_pair:
  "mark_duplicates (r, indices) wm =
     (if length indices > 1 then fold mark_duplicate indices wm else wm)"
  by (simp add: mark_duplicates_def)

lemma fold_mark_duplicates:
  "distinct (concat (map snd groups)) \<Longrightarrow>
   fold mark_duplicates groups wm k =
     (if \<exists>(r, indices) \<in> set groups. length indices > 1 \<and> k \<in> set indices
      then Some ((case wm k of Some ws \<Rightarrow> ws | None \<Rightarrow> []) @ [uniqueness_warning])
      else wm k)"
proof (induction groups arbitrary: wm)
  case Nil
  then show ?case by simp
next
  case (Cons g groups)
  obtain r indices where g: "g = (r, indices)" by (cases g)
  from Cons.prems g have d1: "distinct indices" and d2: "distinct (concat (map snd groups))"
    and dj0: "set indices \<inter> set (concat (map snd groups)) = {}"
    by simp_all
  have dj: "i \<notin> set is'" if "i \<in> set indices" "(r', is') \<in> set groups" for i r' is'
  proof
    assume "i \<in> set is'"
    with that(2) have "i \<in> set (concat (map snd groups))" by force
    with that(1) dj0 show False by blast
  qed
  show ?case
  proof (cases "length indices > 1 \<and> k \<in> set indices")
    case True
    with dj have "\<not> (\<exists>(r', is') \<in> set groups. length is' > 1 \<and> k \<in> set is')" by blast
    with True show ?thesis
      by (simp add: g Cons.IH [OF d2] mark_duplicates_pair fold_mark_duplicate [OF d1])
  next
    case False
    then show ?thesis
      by (auto simp: g Cons.IH [OF d2] mark_duplicates_pair fold_mark_duplicate [OF d1])
  qed
qed

lemma distinct_groups:
  assumes "distinct (map fst groups)"
    and "\<forall>(r, indices) \<in> set groups. distinct indices \<and> (\<forall>k \<in> set indices. f k = r)"
  shows "distinct (concat (map snd groups))"
  using assms
proof (induction groups)
  case Nil
  then show ?case by simp
next
  case (Cons g groups)
  obtain r indices where g: "g = (r, indices)" by (cases g)
  have "set indices \<inter> set (concat (map snd groups)) = {}"
  proof (rule ccontr)
    assume "set indices \<inter> set (concat (map snd groups)) \<noteq> {}"
    then obtain k r' is' where "k \<in> set indices" "(r', is') \<in> set groups" "k \<in> set is'"
      by auto
    note k = this
    from Cons.prems(2) g k(1) have "f k = r" by auto
    moreover from Cons.prems(2) k(2,3) have "f k = r'" by fastforce
    moreover from Cons.prems(1) g k(2) have "r' \<noteq> r" by force
    ultimately show False by simp
  qed
  with Cons g show ?case by auto
qed

lemma length_filter_gt_1:
  assumes "distinct xs"
  shows "(length (filter P xs) > 1 \<and> k \<in> set (filter P xs)) \<longleftrightarrow>
         (k \<in> set xs \<and> P k \<and> (\<exists>j \<in> set xs. j \<noteq> k \<and> P j))"
proof -
  let ?ys = "filter P xs"
  have d: "distinct ?ys" using assms by simp
  then have c: "card (set ?ys) = length ?ys" by (rule distinct_card)
  show ?thesis
  proof
    assume a: "length ?ys > 1 \<and> k \<in> set ?ys"
    have "\<exists>j \<in> set ?ys. j \<noteq> k"
    proof (rule ccontr)
      assume "\<not> (\<exists>j \<in> set ?ys. j \<noteq> k)"
      then have "set ?ys \<subseteq> {k}" by blast
      then have "card (set ?ys) \<le> card {k}" by (intro card_mono) simp_all
      with c a show False by simp
    qed
    with a show "k \<in> set xs \<and> P k \<and> (\<exists>j \<in> set xs. j \<noteq> k \<and> P j)" by auto
  next
    assume a: "k \<in> set xs \<and> P k \<and> (\<exists>j \<in> set xs. j \<noteq> k \<and> P j)"
    then obtain j where j: "j \<in> set xs" "j \<noteq> k" "P j" by blast
    with a have "{k, j} \<subseteq> set ?ys" by simp
    then have "card {k, j} \<le> card (set ?ys)" by (intro card_mono) simp_all
    with j c have "length ?ys > 1" by simp
    with a show "length ?ys > 1 \<and> k \<in> set ?ys" by simp
  qed
qed

lemma buildWarnings_at:
  "buildWarnings rows k =
     (if k < length rows then
        (if \<exists>j < length rows. j \<noteq> k \<and> REFERENZ (rows ! j) = REFERENZ (rows ! k)
         then Some (validateMaxLengths (rows ! k) @ [uniqueness_warning])
         else if validateMaxLengths (rows ! k) = [] then None
         else Some (validateMaxLengths (rows ! k)))
      else None)"
proof -
  from collect_rows [of rows] obtain rim where
    f: "fold collect_row (enumerate 0 rows) (Map.empty, []) = (rows_warnings rows, rim)"
    and d: "distinct (map fst rim)"
    and m: "\<And>r. map_of rim r = (if ref_indices rows r = [] then None else Some (ref_indices rows r))"
    by blast
  have mem: "(r, indices) \<in> set rim \<longleftrightarrow> indices = ref_indices rows r \<and> indices \<noteq> []"
    for r indices
  proof -
    have "(r, indices) \<in> set rim \<longleftrightarrow> map_of rim r = Some indices"
      by (simp add: map_of_eq_Some_iff [OF d])
    also have "\<dots> \<longleftrightarrow> indices = ref_indices rows r \<and> indices \<noteq> []"
      unfolding m by (cases "ref_indices rows r = []") auto
    finally show ?thesis .
  qed
  have dc: "distinct (concat (map snd rim))"
  proof (rule distinct_groups [OF d, of "\<lambda>k. REFERENZ (rows ! k)"])
    show "\<forall>(r, indices) \<in> set rim.
        distinct indices \<and> (\<forall>k \<in> set indices. REFERENZ (rows ! k) = r)"
    proof (clarify, intro conjI ballI)
      fix r indices k'
      assume "(r, indices) \<in> set rim"
      then have i: "indices = ref_indices rows r" by (simp add: mem)
      show "distinct indices" unfolding i ref_indices_def by simp
      assume "k' \<in> set indices"
      then show "REFERENZ (rows ! k') = r" unfolding i ref_indices_def by simp
    qed
  qed
  let ?R = "k < length rows \<and>
      (\<exists>j < length rows. j \<noteq> k \<and> REFERENZ (rows ! j) = REFERENZ (rows ! k))"
  have inR: "length (ref_indices rows r) > 1 \<and> k \<in> set (ref_indices rows r) \<longleftrightarrow>
      REFERENZ (rows ! k) = r \<and> ?R" for r
  proof -
    have "length (ref_indices rows r) > 1 \<and> k \<in> set (ref_indices rows r) \<longleftrightarrow>
        (k \<in> set [0 ..< length rows] \<and> REFERENZ (rows ! k) = r \<and>
         (\<exists>j \<in> set [0 ..< length rows]. j \<noteq> k \<and> REFERENZ (rows ! j) = r))"
      unfolding ref_indices_def by (rule length_filter_gt_1) simp
    also have "\<dots> \<longleftrightarrow> REFERENZ (rows ! k) = r \<and> ?R"
      by (cases "REFERENZ (rows ! k) = r") auto
    finally show ?thesis .
  qed
  have dup: "(\<exists>(r, indices) \<in> set rim. length indices > 1 \<and> k \<in> set indices) \<longleftrightarrow> ?R"
    (is "?L \<longleftrightarrow> _")
  proof
    assume ?L
    then obtain r indices where "(r, indices) \<in> set rim" "length indices > 1 \<and> k \<in> set indices"
      by blast
    then have "length (ref_indices rows r) > 1 \<and> k \<in> set (ref_indices rows r)"
      by (simp add: mem)
    then show ?R using inR [of r] by blast
  next
    assume ?R
    then have g: "length (ref_indices rows (REFERENZ (rows ! k))) > 1 \<and>
        k \<in> set (ref_indices rows (REFERENZ (rows ! k)))"
      using inR [of "REFERENZ (rows ! k)"] by blast
    then have "ref_indices rows (REFERENZ (rows ! k)) \<noteq> []" by force
    then have "(REFERENZ (rows ! k), ref_indices rows (REFERENZ (rows ! k))) \<in> set rim"
      by (simp add: mem)
    with g show ?L by blast
  qed
  have b: "buildWarnings rows k = fold mark_duplicates rim (rows_warnings rows) k"
    by (simp add: buildWarnings_def f)
  show ?thesis
  proof (cases ?R)
    case True
    have "buildWarnings rows k =
        Some ((case rows_warnings rows k of Some ws \<Rightarrow> ws | None \<Rightarrow> []) @ [uniqueness_warning])"
      unfolding b fold_mark_duplicates [OF dc] dup by (simp only: True if_True simp_thms)
    with True show ?thesis by (simp add: rows_warnings_def)
  next
    case False
    have "buildWarnings rows k = rows_warnings rows k"
      unfolding b fold_mark_duplicates [OF dc] dup by (simp only: False if_False)
    with False show ?thesis by (auto simp: rows_warnings_def)
  qed
qed

text \<open>
  Claim C10. Every index bound in the warnings map of \<^verbatim>\<open>buildWarnings\<close> is the index of a
  row and is bound to a non-empty list; a row that passes all checks (no warning of its own
  and a reference that no other row shares) has no entry at all.
\<close>

theorem buildWarnings_entries_nonempty:
  "(\<forall>k ws. buildWarnings rows k = Some ws \<longrightarrow> ws \<noteq> [] \<and> k < length rows) \<and>
   (\<forall>k < length rows.
      validateMaxLengths (rows ! k) = [] \<and>
      (\<forall>j < length rows. j \<noteq> k \<longrightarrow> REFERENZ (rows ! j) \<noteq> REFERENZ (rows ! k)) \<longrightarrow>
      buildWarnings rows k = None)"
proof -
  have a: "ws \<noteq> [] \<and> k < length rows" if "buildWarnings rows k = Some ws" for k ws
    using that unfolding buildWarnings_at by (auto split: if_splits)
  have b: "buildWarnings rows k = None"
    if "k < length rows" and "validateMaxLengths (rows ! k) = []"
      and "\<forall>j < length rows. j \<noteq> k \<longrightarrow> REFERENZ (rows ! j) \<noteq> REFERENZ (rows ! k)"
    for k
    using that unfolding buildWarnings_at by auto
  from a b show ?thesis by blast
qed

lemma validateMaxLengths_address1:
  "validateMaxLengths address1 =
     [str ''NAME exceeds max length (51 > 50)'',
      str ''Full address exceeds max length (79 > 72)'']"
  by (simp add: validateMaxLengths_def check_limit_def address1_def address0_def limits_def
      row_field_def fullAddress_def fullAddressFields_def str_def trim_def is_ws_def
      length_warning_def full_address_warning_def decimal.simps)

theorem buildWarnings_entries_nonempty_witness:
  "buildWarnings [address0, address1] 0 = None \<and>
   buildWarnings [address0, address1] 1 =
     Some [str ''NAME exceeds max length (51 > 50)'',
           str ''Full address exceeds max length (79 > 72)''] \<and>
   [str ''NAME exceeds max length (51 > 50)'',
    str ''Full address exceeds max length (79 > 72)''] \<noteq> []"
proof -
  have r: "REFERENZ address0 \<noteq> REFERENZ address1"
    by (simp add: address0_def address1_def)
  have two: "j = 0 \<or> j = 1" if "j < length [address0, address1]" for j
    using that by (auto simp: less_Suc_eq)
  have u0: "\<forall>j < length [address0, address1]. j \<noteq> 0 \<longrightarrow>
      REFERENZ ([address0, address1] ! j) \<noteq> REFERENZ ([address0, address1] ! 0)"
  proof (intro allI impI)
    fix j assume "j < length [address0, address1]" "j \<noteq> 0"
    with two [of j] have "j = 1" by blast
    with r show "REFERENZ ([address0, address1] ! j) \<noteq> REFERENZ ([address0, address1] ! 0)"
      by simp
  qed
  have u1: "\<not> (\<exists>j < length [address0, address1]. j \<noteq> 1 \<and>
      REFERENZ ([address0, address1] ! j) = REFERENZ ([address0, address1] ! 1))"
  proof
    assume "\<exists>j < length [address0, address1]. j \<noteq> 1 \<and>
      REFERENZ ([address0, address1] ! j) = REFERENZ ([address0, address1] ! 1)"
    then obtain j where j: "j < length [address0, address1]" "j \<noteq> 1"
      "REFERENZ ([address0, address1] ! j) = REFERENZ ([address0, address1] ! 1)" by blast
    from two [OF j(1)] j(2) have "j = 0" by blast
    with j(3) r show False by simp
  qed
  have 1: "buildWarnings [address0, address1] 1 =
      Some [str ''NAME exceeds max length (51 > 50)'',
            str ''Full address exceeds max length (79 > 72)'']"
    unfolding buildWarnings_at using u1 by (simp add: validateMaxLengths_address1)
  have v0: "validateMaxLengths ([address0, address1] ! 0) = []"
    by (simp add: validateMaxLengths_address0)
  have l0: "0 < length [address0, address1]" by simp
  from buildWarnings_entries_nonempty [of "[address0, address1]"] l0 v0 u0
  have 0: "buildWarnings [address0, address1] 0 = None" by blast
  from 0 1 show ?thesis by simp
qed

subsection \<open>Deleting a row\<close>

lemma filter_enumerate_neq:
  "map snd (filter (\<lambda>(idx, row). idx \<noteq> i) (enumerate n xs)) =
     (if i < n then xs else take (i - n) xs @ drop (Suc (i - n)) xs)"
proof (induction xs arbitrary: n)
  case Nil
  show ?case by simp
next
  case (Cons x xs)
  consider "i < n" | "i = n" | "n < i" by linarith
  then show ?case
  proof cases
    case 1
    with Cons.IH [of "Suc n"] show ?thesis by simp
  next
    case 2
    with Cons.IH [of "Suc n"] show ?thesis by simp
  next
    case 3
    then have "Suc (i - Suc n) = i - n" by simp
    with 3 Cons.IH [of "Suc n"] show ?thesis by (simp add: take_Cons' drop_Cons')
  qed
qed

lemma reindexed_REFERENZ:
  "map REFERENZ (map (\<lambda>(idx, row). row\<lparr>REFERENZ := Num (idx + 1)\<rparr>) (enumerate 0 ys)) =
     map (\<lambda>j. Num (j + 1)) [0 ..< length ys]"
  by (rule nth_equalityI) (simp_all add: nth_enumerate_eq)

lemma reindexed_other_fields:
  "map (\<lambda>row. row\<lparr>REFERENZ := Undefined\<rparr>)
     (map (\<lambda>(idx, row). row\<lparr>REFERENZ := Num (idx + 1)\<rparr>) (enumerate 0 ys)) =
   map (\<lambda>row. row\<lparr>REFERENZ := Undefined\<rparr>) ys"
  by (rule nth_equalityI) (simp_all add: nth_enumerate_eq)

lemma handleDeleteRow_data:
  assumes "i < length (mappedData st)"
  shows "mappedData (handleDeleteRow i st) =
           map (\<lambda>(idx, row). row\<lparr>REFERENZ := Num (idx + 1)\<rparr>)
             (enumerate 0 (take i (mappedData st) @ drop (Suc i) (mappedData st)))"
    and "warnings (handleDeleteRow i st) = buildWarnings (mappedData (handleDeleteRow i st))"
  using assms by (simp_all add: handleDeleteRow_def Let_def filter_enumerate_neq)

text \<open>
  Claim C6. Deleting the row at a valid index \<open>i\<close> from \<open>N\<close> rows leaves \<open>N - 1\<close> rows,
  the remaining ones in their order and unchanged but for \<open>REFERENZ\<close>, which is again
  1, 2, ... \<open>N - 1\<close>; the warnings are those of the validator run over the new rows, and
  none of them is "REFERENZ must be unique". This holds whatever the references were
  before, so in particular when they were 1 to \<open>N\<close>.
\<close>

theorem handleDeleteRow_renumbers:
  assumes "i < length (mappedData st)"
  shows "length (mappedData (handleDeleteRow i st)) = length (mappedData st) - 1 \<and>
         map REFERENZ (mappedData (handleDeleteRow i st)) =
           map (\<lambda>j. Num (j + 1)) [0 ..< length (mappedData st) - 1] \<and>
         map (\<lambda>row. row\<lparr>REFERENZ := Undefined\<rparr>) (mappedData (handleDeleteRow i st)) =
           map (\<lambda>row. row\<lparr>REFERENZ := Undefined\<rparr>)
             (take i (mappedData st) @ drop (Suc i) (mappedData st)) \<and>
         warnings (handleDeleteRow i st) = buildWarnings (mappedData (handleDeleteRow i st)) \<and>
         (\<forall>k ws. warnings (handleDeleteRow i st) k = Some ws \<longrightarrow>
            uniqueness_warning \<notin> set ws)"
proof -
  let ?ys = "take i (mappedData st) @ drop (Suc i) (mappedData st)"
  let ?new = "mappedData (handleDeleteRow i st)"
  have len: "length ?ys = length (mappedData st) - 1" using assms by simp
  have refs: "map REFERENZ ?new = map (\<lambda>j. Num (j + 1)) [0 ..< length (mappedData st) - 1]"
    unfolding handleDeleteRow_data(1) [OF assms] reindexed_REFERENZ len ..
  have n: "length ?new = length (mappedData st) - 1"
    unfolding handleDeleteRow_data(1) [OF assms] using len by simp
  have ref_at: "REFERENZ (?new ! k) = Num (k + 1)" if "k < length ?new" for k
  proof -
    from that have "REFERENZ (?new ! k) = map REFERENZ ?new ! k" by simp
    also have "\<dots> = Num (k + 1)" unfolding refs using that n by simp
    finally show ?thesis .
  qed
  have no_dup: "uniqueness_warning \<notin> set ws" if "buildWarnings ?new k = Some ws" for k ws
  proof -
    have "\<not> (\<exists>j < length ?new. j \<noteq> k \<and> REFERENZ (?new ! j) = REFERENZ (?new ! k))"
      if "k < length ?new"
      using that by (auto simp: ref_at)
    with that have "ws = validateMaxLengths (?new ! k)"
      unfolding buildWarnings_at by (auto split: if_splits)
    then show ?thesis by (simp add: uniqueness_warning_not_validate)
  qed
  have other: "map (\<lambda>row. row\<lparr>REFERENZ := Undefined\<rparr>) ?new =
      map (\<lambda>row. row\<lparr>REFERENZ := Undefined\<rparr>) ?ys"
    unfolding handleDeleteRow_data(1) [OF assms] by (rule reindexed_other_fields)
  have w: "warnings (handleDeleteRow i st) = buildWarnings ?new"
    by (rule handleDeleteRow_data(2) [OF assms])
  have u: "\<forall>k ws. warnings (handleDeleteRow i st) k = Some ws \<longrightarrow>
      uniqueness_warning \<notin> set ws"
    unfolding w using no_dup by blast
  from n refs other w u show ?thesis by blast
qed

theorem handleDeleteRow_renumbers_witness:
  "1 < length (mappedData state1) \<and>
   mappedData (handleDeleteRow 1 state1) = [address0, address2\<lparr>REFERENZ := Num 2\<rparr>] \<and>
   length (mappedData (handleDeleteRow 1 state1)) = 2 \<and>
   map REFERENZ (mappedData (handleDeleteRow 1 state1)) = [Num 1, Num 2] \<and>
   warnings (handleDeleteRow 1 state1) =
     buildWarnings [address0, address2\<lparr>REFERENZ := Num 2\<rparr>]"
proof -
  have l: "1 < length (mappedData state1)" by (simp add: state1_def)
  have n: "length (mappedData state1) = 3" by (simp add: state1_def)
  have u: "[0 ..< 2] = [0, Suc 0]" by (simp add: upt_rec)
  have d: "mappedData (handleDeleteRow 1 state1) = [address0, address2\<lparr>REFERENZ := Num 2\<rparr>]"
    by (simp add: handleDeleteRow_def Let_def state1_def address0_def address1_def address2_def)
  from handleDeleteRow_renumbers [OF l]
  have "length (mappedData (handleDeleteRow 1 state1)) = length (mappedData state1) - 1"
    and "map REFERENZ (mappedData (handleDeleteRow 1 state1)) =
      map (\<lambda>j. Num (j + 1)) [0 ..< length (mappedData state1) - 1]"
    and w: "warnings (handleDeleteRow 1 state1) =
      buildWarnings (mappedData (handleDeleteRow 1 state1))"
    by blast+
  then have "length (mappedData (handleDeleteRow 1 state1)) = 2"
    and "map REFERENZ (mappedData (handleDeleteRow 1 state1)) = [Num 1, Num 2]"
    by (simp_all add: n u)
  with l d w show ?thesis by simp
qed

section \<open>The validator on one record\<close>

lemmas warning_texts = length_warning_def unmapped_warning_def full_address_warning_def str_def

lemma name_limit_reported:
  "length_warning (str ''NAME'') (length (NAME row)) 50 \<in> set (validateMaxLengths row) \<longleftrightarrow>
     length (NAME row) > 50"
  by (simp add: set_validateMaxLengths limits_def check_limit_def Let_def row_field_def
      warning_texts split: option.splits)

lemma zusatz_limit_reported:
  "length_warning (str ''ZUSATZ'') (length (ZUSATZ row)) 50 \<in> set (validateMaxLengths row) \<longleftrightarrow>
     length (ZUSATZ row) > 50"
  by (simp add: set_validateMaxLengths limits_def check_limit_def Let_def row_field_def
      warning_texts split: option.splits)

lemma strasse_limit_reported:
  "length_warning (str ''STRASSE'') (length (STRASSE row)) 40 \<in> set (validateMaxLengths row) \<longleftrightarrow>
     length (STRASSE row) > 40"
  by (simp add: set_validateMaxLengths limits_def check_limit_def Let_def row_field_def
      warning_texts split: option.splits)

lemma nummer_limit_reported:
  "length_warning (str ''NUMMER'') (length (NUMMER row)) 7 \<in> set (validateMaxLengths row) \<longleftrightarrow>
     length (NUMMER row) > 7"
  by (simp add: set_validateMaxLengths limits_def check_limit_def Let_def row_field_def
      warning_texts split: option.splits)

lemma plz_limit_reported:
  "length_warning (str ''PLZ'') (length (PLZ row)) 9 \<in> set (validateMaxLengths row) \<longleftrightarrow>
     length (PLZ row) > 9"
  by (simp add: set_validateMaxLengths limits_def check_limit_def Let_def row_field_def
      warning_texts split: option.splits)

lemma stadt_limit_reported:
  "length_warning (str ''STADT'') (length (STADT row)) 40 \<in> set (validateMaxLengths row) \<longleftrightarrow>
     length (STADT row) > 40"
  by (simp add: set_validateMaxLengths limits_def check_limit_def Let_def row_field_def
      warning_texts split: option.splits)

lemma land_limit_reported:
  "length_warning (str ''LAND'') (length (js_String (LAND row))) 3 \<in> set (validateMaxLengths row) \<longleftrightarrow>
     length (js_String (LAND row)) > 3"
  by (simp add: set_validateMaxLengths limits_def check_limit_def Let_def row_field_def
      warning_texts split: option.splits)

lemma adress_typ_limit_reported:
  "length_warning (str ''ADRESS_TYP'') (length (ADRESS_TYP row)) 99 \<in> set (validateMaxLengths row) \<longleftrightarrow>
     length (ADRESS_TYP row) > 99"
  by (simp add: set_validateMaxLengths limits_def check_limit_def Let_def row_field_def
      warning_texts split: option.splits)

lemma referenz_limit_reported:
  "length_warning (str ''REFERENZ'') (length (js_String (REFERENZ row))) 20 \<in> set (validateMaxLengths row) \<longleftrightarrow>
     length (js_String (REFERENZ row)) > 20"
  by (simp add: set_validateMaxLengths limits_def check_limit_def Let_def row_field_def
      warning_texts split: option.splits)

lemma full_address_reported:
  "full_address_warning (length (fullAddress row)) \<in> set (validateMaxLengths row) \<longleftrightarrow>
     length (fullAddress row) > 72"
  by (simp add: set_validateMaxLengths limits_def check_limit_def Let_def row_field_def
      warning_texts split: option.splits)

lemma fullAddress_fields:
  "fullAddress row =
     join (str '' '')
       (filter (\<lambda>s. s \<noteq> [])
          (map trim [NAME row, ZUSATZ row, STRASSE row, NUMMER row, PLZ row, STADT row]))"
  by (simp add: fullAddress_def fullAddressFields_def row_field_def str_def)

lemma warning_text_examples:
  "length_warning (str ''NAME'') 51 50 = str ''NAME exceeds max length (51 > 50)''"
  "full_address_warning 79 = str ''Full address exceeds max length (79 > 72)''"
  by (simp_all add: warning_texts decimal.simps)

text \<open>
  Claim C3. For every record and each of the nine fields, the validator reports
  "FIELD exceeds max length (actual > limit)" exactly when the number of code units of the
  stringified field value exceeds the limit (NAME 50, ZUSATZ 50, STRASSE 40, NUMMER 7,
  PLZ 9, STADT 40, LAND 3, ADRESS_TYP 99, REFERENZ 20), and it reports "Full address exceeds
  max length (len > 72)" exactly when the space-join of the trimmed, non-empty values of
  NAME, ZUSATZ, STRASSE, NUMMER, PLZ and STADT is longer than 72. Each equivalence stands
  on its own: every violated check is reported.
\<close>

theorem validateMaxLengths_reports:
  "(length_warning (str ''NAME'') (length (NAME row)) 50 \<in> set (validateMaxLengths row) \<longleftrightarrow>
      length (NAME row) > 50) \<and>
   (length_warning (str ''ZUSATZ'') (length (ZUSATZ row)) 50 \<in> set (validateMaxLengths row) \<longleftrightarrow>
      length (ZUSATZ row) > 50) \<and>
   (length_warning (str ''STRASSE'') (length (STRASSE row)) 40 \<in> set (validateMaxLengths row) \<longleftrightarrow>
      length (STRASSE row) > 40) \<and>
   (length_warning (str ''NUMMER'') (length (NUMMER row)) 7 \<in> set (validateMaxLengths row) \<longleftrightarrow>
      length (NUMMER row) > 7) \<and>
   (length_warning (str ''PLZ'') (length (PLZ row)) 9 \<in> set (validateMaxLengths row) \<longleftrightarrow>
      length (PLZ row) > 9) \<and>
   (length_warning (str ''STADT'') (length (STADT row)) 40 \<in> set (validateMaxLengths row) \<longleftrightarrow>
      length (STADT row) > 40) \<and>
   (length_warning (str ''LAND'') (length (js_String (LAND row))) 3 \<in> set (validateMaxLengths row) \<longleftrightarrow>
      length (js_String (LAND row)) > 3) \<and>
   (length_warning (str ''ADRESS_TYP'') (length (ADRESS_TYP row)) 99 \<in> set (validateMaxLengths row) \<longleftrightarrow>
      length (ADRESS_TYP row) > 99) \<and>
   (length_warning (str ''REFERENZ'') (length (js_String (REFERENZ row))) 20
        \<in> set (validateMaxLengths row) \<longleftrightarrow>
      length (js_String (REFERENZ row)) > 20) \<and>
   (full_address_warning (length (fullAddress row)) \<in> set (validateMaxLengths row) \<longleftrightarrow>
      length (fullAddress row) > 72) \<and>
   fullAddress row =
     join (str '' '')
       (filter (\<lambda>s. s \<noteq> [])
          (map trim [NAME row, ZUSATZ row, STRASSE row, NUMMER row, PLZ row, STADT row])) \<and>
   length_warning (str ''NAME'') 51 50 = str ''NAME exceeds max length (51 > 50)'' \<and>
   full_address_warning 79 = str ''Full address exceeds max length (79 > 72)''"
  using name_limit_reported [of row] zusatz_limit_reported [of row] strasse_limit_reported [of row]
    nummer_limit_reported [of row] plz_limit_reported [of row] stadt_limit_reported [of row]
    land_limit_reported [of row] adress_typ_limit_reported [of row]
    referenz_limit_reported [of row] full_address_reported [of row] fullAddress_fields [of row]
    warning_text_examples
  by blast

section \<open>Whitespace in the fields of a mapped record\<close>

subsection \<open>Trimming\<close>

lemma last_dropWhile: "dropWhile P xs \<noteq> [] \<Longrightarrow> last (dropWhile P xs) = last xs"
  by (induction xs) (auto split: if_splits)

lemma hd_dropWhile_not: "dropWhile P xs \<noteq> [] \<Longrightarrow> \<not> P (hd (dropWhile P xs))"
  by (induction xs) auto

lemma trim_ends:
  assumes "trim s \<noteq> []"
  shows "\<not> is_ws (hd (trim s))" and "\<not> is_ws (last (trim s))"
proof -
  let ?a = "dropWhile is_ws s"
  let ?b = "dropWhile is_ws (rev ?a)"
  from assms have b: "?b \<noteq> []" by (simp add: trim_def)
  have a: "?a \<noteq> []"
  proof
    assume "?a = []"
    with b show False by simp
  qed
  have "hd (trim s) = last ?b" using b by (simp add: trim_def hd_rev)
  also have "\<dots> = last (rev ?a)" using b by (rule last_dropWhile)
  also have "\<dots> = hd ?a" using a by (simp add: last_rev)
  finally show "\<not> is_ws (hd (trim s))" using hd_dropWhile_not [OF a] by simp
  have "last (trim s) = hd ?b" using b by (simp add: trim_def last_rev)
  then show "\<not> is_ws (last (trim s))" using hd_dropWhile_not [OF b] by simp
qed

lemma trim_id:
  assumes "s = [] \<or> (\<not> is_ws (hd s) \<and> \<not> is_ws (last s))"
  shows "trim s = s"
proof (cases "s = []")
  case True
  then show ?thesis by (simp add: trim_def)
next
  case False
  with assms have h: "\<not> is_ws (hd s)" and l: "\<not> is_ws (last s)" by auto
  from False h have 1: "dropWhile is_ws s = s" by (cases s) auto
  from False l have "\<not> is_ws (hd (rev s))" by (simp add: hd_rev)
  with False have 2: "dropWhile is_ws (rev s) = rev s" by (cases "rev s") auto
  show ?thesis by (simp add: trim_def 1 2)
qed

lemma trim_trim: "trim (trim s) = trim s"
  by (rule trim_id) (use trim_ends [of s] in blast)

subsection \<open>Collapsing whitespace\<close>

lemma replace_ws_runs_Nil_iff: "replace_ws_runs xs = [] \<longleftrightarrow> xs = []"
  by (cases xs) auto

lemma hd_replace_ws_runs:
  "xs \<noteq> [] \<Longrightarrow> \<not> is_ws (hd xs) \<Longrightarrow> hd (replace_ws_runs xs) = hd xs"
  by (cases xs) auto

lemma single_spaces_Cons:
  "ys \<noteq> [] \<Longrightarrow>
   single_spaces (c # ys) \<longleftrightarrow> (is_ws c \<longrightarrow> c = 0x20 \<and> \<not> is_ws (hd ys)) \<and> single_spaces ys"
  by (cases ys) auto

lemma single_spaces_replace_ws_runs:
  "xs = [] \<or> \<not> is_ws (last xs) \<Longrightarrow> single_spaces (replace_ws_runs xs)"
proof (induction xs rule: replace_ws_runs.induct)
  case 1
  show ?case by simp
next
  case (2 c cs)
  show ?case
  proof (cases "is_ws c")
    case True
    let ?r = "dropWhile is_ws cs"
    from 2(3) True have cs: "cs \<noteq> []" "\<not> is_ws (last cs)" by (auto split: if_splits)
    then have "\<exists>x \<in> set cs. \<not> is_ws x" using last_in_set by blast
    then have r: "?r \<noteq> []" by (simp add: dropWhile_eq_Nil_conv)
    then have l: "\<not> is_ws (last ?r)" using cs last_dropWhile [OF r] by simp
    have h: "\<not> is_ws (hd ?r)" using r by (rule hd_dropWhile_not)
    from 2(1) [OF True] l have "single_spaces (replace_ws_runs ?r)" by simp
    moreover have "replace_ws_runs ?r \<noteq> []" using r by (simp add: replace_ws_runs_Nil_iff)
    moreover have "hd (replace_ws_runs ?r) = hd ?r" using r h by (rule hd_replace_ws_runs)
    ultimately show ?thesis using True h by (simp add: single_spaces_Cons)
  next
    case False
    show ?thesis
    proof (cases "cs = []")
      case True
      with False show ?thesis by simp
    next
      case ne: False
      with 2(3) have "\<not> is_ws (last cs)" by simp
      with 2(2) [OF False] have "single_spaces (replace_ws_runs cs)" by simp
      moreover have "replace_ws_runs cs \<noteq> []" using ne by (simp add: replace_ws_runs_Nil_iff)
      ultimately show ?thesis using False by (simp add: single_spaces_Cons)
    qed
  qed
qed

lemma single_spaces_last: "single_spaces ys \<Longrightarrow> ys \<noteq> [] \<Longrightarrow> \<not> is_ws (last ys)"
  by (induction ys rule: single_spaces.induct) auto

lemma replace_ws_runs_id: "single_spaces ys \<Longrightarrow> replace_ws_runs ys = ys"
proof (induction ys rule: single_spaces.induct)
  case 1
  show ?case by simp
next
  case (2 c)
  then show ?case by simp
next
  case (3 c d s)
  then show ?case by (cases "is_ws c") auto
qed

subsection \<open>The Normalizer\<close>

lemma whitespace_normalized_cleanValue: "whitespace_normalized (cleanValue v)"
proof (cases "truthy v \<and> trim (js_String v) \<noteq> []")
  case True
  let ?t = "trim (js_String v)"
  from True have t: "?t \<noteq> []" by simp
  have "single_spaces (replace_ws_runs ?t)"
    using trim_ends(2) [OF t] by (intro single_spaces_replace_ws_runs) simp
  moreover have "hd (replace_ws_runs ?t) = hd ?t"
    using t trim_ends(1) [OF t] by (rule hd_replace_ws_runs)
  ultimately show ?thesis
    using True trim_ends(1) [OF t] by (simp add: whitespace_normalized_def cleanValue_def)
next
  case False
  then show ?thesis by (auto simp: whitespace_normalized_def cleanValue_def)
qed

lemma cleanValue_id: "whitespace_normalized s \<Longrightarrow> cleanValue (Str s) = s"
proof (cases "s = []")
  case True
  then show ?thesis by (simp add: cleanValue_def)
next
  case False
  assume n: "whitespace_normalized s"
  with False have "\<not> is_ws (hd s)" and ss: "single_spaces s"
    by (auto simp: whitespace_normalized_def)
  moreover from ss False have "\<not> is_ws (last s)" by (rule single_spaces_last)
  ultimately have "trim s = s" by (intro trim_id) simp
  with False ss show ?thesis by (simp add: cleanValue_def replace_ws_runs_id)
qed

lemma cleanValue_cleanValue: "cleanValue (Str (cleanValue v)) = cleanValue v"
  by (rule cleanValue_id) (rule whitespace_normalized_cleanValue)

lemma mapAddressType_cases:
  "mapAddressType v = str ''HOUSE'' \<or> mapAddressType v = str ''POBOX'' \<or>
   mapAddressType v = str ''MAJORRECIPIENT''"
  by (simp add: mapAddressType_def Let_def)

lemma whitespace_normalized_constants:
  "whitespace_normalized (str ''HOUSE'')" "whitespace_normalized (str ''POBOX'')"
  "whitespace_normalized (str ''MAJORRECIPIENT'')"
  by (simp_all add: whitespace_normalized_def str_def is_ws_def)

lemma Object_prototype_not_Str: "Object_prototype k \<noteq> Str s"
  by (simp add: Object_prototype_def native_function_def)

lemma map_of_js_set_proto:
  "map_of (js_set m k v) (str ''__proto__'') = map_of m (str ''__proto__'')"
  by (simp add: js_set_def update_conv')

lemma map_of_register_country_proto:
  "map_of (register_country lower c m) (str ''__proto__'') = map_of m (str ''__proto__'')"
  by (simp add: register_country_def Let_def map_of_js_set_proto)

lemma map_of_fold_register_country_proto:
  "map_of (fold (register_country lower) cs m) (str ''__proto__'') = map_of m (str ''__proto__'')"
  by (induction cs arbitrary: m) (simp_all add: map_of_register_country_proto)

lemma country_lookup_cases:
  "js_get (buildCountryMapping lower cs) k = Object_prototype k \<or>
   (\<exists>c \<in> set cs. js_get (buildCountryMapping lower cs) k = Str (alpha3Code c))"
proof (cases "k = str ''__proto__''")
  case True
  have "map_of (buildCountryMapping lower cs) (str ''__proto__'') = None"
    unfolding buildCountryMapping_def by (simp add: map_of_fold_register_country_proto)
  with True show ?thesis by (simp add: js_get_def)
next
  case False
  show ?thesis
  proof (cases "find (\<lambda>c. k \<in> set (country_keys lower c)) (rev cs)")
    case None
    then show ?thesis by (simp add: js_get_def map_of_buildCountryMapping [OF False])
  next
    case (Some c)
    from find_Some_set [OF Some] have "c \<in> set cs" by simp
    moreover from Some have "js_get (buildCountryMapping lower cs) k = Str (alpha3Code c)"
      by (simp add: js_get_def map_of_buildCountryMapping [OF False])
    ultimately show ?thesis by blast
  qed
qed

lemma mapCountry_code:
  "code (mapCountry lower cs v) =
     (if truthy v \<and> trim (js_String v) \<noteq> [] \<and>
         truthy (js_get (buildCountryMapping lower cs) (lower (trim (js_String v))))
      then js_get (buildCountryMapping lower cs) (lower (trim (js_String v)))
      else Str (str ''DEU''))"
  by (simp add: mapCountry_def Let_def)

lemma mapCountry_original:
  "unmappedOriginal (mapCountry lower cs v) =
     (if truthy v \<and> trim (js_String v) \<noteq> [] \<and>
         \<not> truthy (js_get (buildCountryMapping lower cs) (lower (trim (js_String v))))
      then Some (trim (js_String v)) else None)"
  by (simp add: mapCountry_def Let_def)

lemma whitespace_normalized_DEU: "whitespace_normalized (str ''DEU'')"
  by (simp add: whitespace_normalized_def str_def is_ws_def)

lemma cleanValue_trimmed:
  assumes "s \<noteq> []" and "trim s = s"
  shows "cleanValue (Str s) = replace_ws_runs s"
    and "whitespace_normalized s \<longleftrightarrow> single_spaces s"
proof -
  from assms show "cleanValue (Str s) = replace_ws_runs s" by (simp add: cleanValue_def)
  from assms have "trim s \<noteq> []" by simp
  from trim_ends(1) [OF this] assms have "\<not> is_ws (hd s)" by simp
  then show "whitespace_normalized s \<longleftrightarrow> single_spaces s"
    by (simp add: whitespace_normalized_def)
qed

lemma mapRow_fields:
  "NAME (mapRow lower cs row index mapping) =
     cleanValue (Str (createFullName
       (js_or (js_get (mapColumns lower row mapping) (str ''first_name'')) (Str []))
       (js_or (js_get (mapColumns lower row mapping) (str ''last_name'')) (Str []))))"
  "ZUSATZ (mapRow lower cs row index mapping) =
     cleanValue (js_or (js_get (mapColumns lower row mapping) (str ''address_addition'')) (Str []))"
  "STRASSE (mapRow lower cs row index mapping) =
     cleanValue (Str (fst (splitStreetNumber (js_get (mapColumns lower row mapping) (str ''street'')))))"
  "NUMMER (mapRow lower cs row index mapping) =
     cleanValue (Str (snd (splitStreetNumber (js_get (mapColumns lower row mapping) (str ''street'')))))"
  "PLZ (mapRow lower cs row index mapping) =
     cleanValue (js_get (mapColumns lower row mapping) (str ''postal_code''))"
  "STADT (mapRow lower cs row index mapping) =
     cleanValue (js_or (js_get (mapColumns lower row mapping) (str ''city'')) (Str []))"
  "LAND (mapRow lower cs row index mapping) =
     code (mapCountry lower cs (js_get (mapColumns lower row mapping) (str ''country'')))"
  "ADRESS_TYP (mapRow lower cs row index mapping) =
     mapAddressType (js_or (js_get (mapColumns lower row mapping) (str ''address_addition'')) (Str []))"
  "REFERENZ (mapRow lower cs row index mapping) = Num (index + 1)"
  "LAND_UNMAPPED_ORIGINAL (mapRow lower cs row index mapping) =
     (case unmappedOriginal
             (mapCountry lower cs (js_get (mapColumns lower row mapping) (str ''country''))) of
        Some original \<Rightarrow> if original \<noteq> [] then Some original else None
      | None \<Rightarrow> None)"
  by (simp_all add: mapRow_def Let_def split_beta)

text \<open>
  Claim C9 says that every string field of the record that \<^verbatim>\<open>mapRow\<close> makes is
  whitespace-normalized, \<open>LAND_UNMAPPED_ORIGINAL\<close> included. That field is the country
  string trimmed but not collapsed: for the country "Costa  Rica", written with two
  spaces, it keeps both, and the Normalizer would change it.
\<close>

theorem mapRow_two_spaces_kept:
  "LAND_UNMAPPED_ORIGINAL (mapRow ascii_lower [germany] row_two_spaces 0 None) =
     Some (str ''Costa  Rica'') \<and>
   cleanValue (Str (str ''Costa  Rica'')) = str ''Costa Rica'' \<and>
   str ''Costa  Rica'' \<noteq> str ''Costa Rica'' \<and>
   \<not> whitespace_normalized (str ''Costa  Rica'')"
proof -
  have m: "mapColumns ascii_lower row_two_spaces None = [(str ''country'', Str (str ''Costa  Rica''))]"
    by (simp add: mapColumns_def normalize_alias_def map_column_def row_two_spaces_def
      DEFAULT_COLUMN_MAPPING_def Object_entries_def is_array_index_def is_digit_def str_def
      ascii_lower_def is_ascii_upper_def js_set_def js_get_def Object_prototype_def Let_def)
  have g: "js_get [(str ''country'', Str (str ''Costa  Rica''))] (str ''country'') =
      Str (str ''Costa  Rica'')"
    by (simp add: js_get_def)
  have c: "mapCountry ascii_lower [germany] (Str (str ''Costa  Rica'')) =
      \<lparr>code = Str (str ''DEU''), unmappedOriginal = Some (str ''Costa  Rica'')\<rparr>"
    by (simp add: mapCountry_def str_def trim_def is_ws_def buildCountryMapping_def
      register_country_def germany_def js_set_def js_get_def ascii_lower_def is_ascii_upper_def
      Object_prototype_def)
  have 1: "LAND_UNMAPPED_ORIGINAL (mapRow ascii_lower [germany] row_two_spaces 0 None) =
     Some (str ''Costa  Rica'')"
    unfolding mapRow_fields m g c by (simp add: str_def)
  have 2: "cleanValue (Str (str ''Costa  Rica'')) = str ''Costa Rica''"
    by (simp add: cleanValue_def str_def trim_def is_ws_def)
  have 3: "str ''Costa  Rica'' \<noteq> str ''Costa Rica''"
    by (simp add: str_def)
  have 4: "\<not> whitespace_normalized (str ''Costa  Rica'')"
    by (simp add: whitespace_normalized_def str_def is_ws_def)
  from 1 2 3 4 show ?thesis by blast
qed

text \<open>
  Claim C9, amended. For every row, alias table, lower-casing function and country table,
  the fields NAME, ZUSATZ, STRASSE, NUMMER, PLZ, STADT and ADRESS_TYP of the record that
  \<^verbatim>\<open>mapRow\<close> makes are whitespace-normalized, and the Normalizer leaves each of them
  unchanged. \<open>LAND\<close> is copied from the country lookup: it is the value found for the
  lower-cased trimmed country, and "DEU" when the country is absent, empty or not found.
  Whenever \<open>LAND\<close> is a string it is "DEU" or the \<open>alpha3Code\<close> of an entry of the country
  table, so it is whitespace-normalized as soon as every \<open>alpha3Code\<close> of the table is; and it
  is a string unless the lower-cased trimmed country is a name that every object inherits.
  \<open>LAND_UNMAPPED_ORIGINAL\<close>, when present, is exactly the stringified country trimmed at
  both ends: it is not empty, its inner whitespace runs are kept as they were, so the
  Normalizer collapses them and the field is whitespace-normalized only if they are single
  spaces; \<open>LAND\<close> is then "DEU".
\<close>

theorem mapRow_fields_normalized:
  "let r = mapRow lower cs row index mapping;
       country = js_get (mapColumns lower row mapping) (str ''country'');
       countryStr = trim (js_String country);
       mapped = js_get (buildCountryMapping lower cs) (lower countryStr)
   in
   whitespace_normalized (NAME r) \<and> whitespace_normalized (ZUSATZ r) \<and>
   whitespace_normalized (STRASSE r) \<and> whitespace_normalized (NUMMER r) \<and>
   whitespace_normalized (PLZ r) \<and> whitespace_normalized (STADT r) \<and>
   whitespace_normalized (ADRESS_TYP r) \<and>
   cleanValue (Str (NAME r)) = NAME r \<and> cleanValue (Str (ZUSATZ r)) = ZUSATZ r \<and>
   cleanValue (Str (STRASSE r)) = STRASSE r \<and> cleanValue (Str (NUMMER r)) = NUMMER r \<and>
   cleanValue (Str (PLZ r)) = PLZ r \<and> cleanValue (Str (STADT r)) = STADT r \<and>
   cleanValue (Str (ADRESS_TYP r)) = ADRESS_TYP r \<and>
   LAND r = (if truthy country \<and> countryStr \<noteq> [] \<and> truthy mapped then mapped
             else Str (str ''DEU'')) \<and>
   LAND_UNMAPPED_ORIGINAL r =
     (if truthy country \<and> countryStr \<noteq> [] \<and> \<not> truthy mapped then Some countryStr else None) \<and>
   (\<forall>original. LAND_UNMAPPED_ORIGINAL r = Some original \<longrightarrow>
      original = countryStr \<and> original \<noteq> [] \<and> trim original = original \<and>
      cleanValue (Str original) = replace_ws_runs original \<and>
      (whitespace_normalized original \<longleftrightarrow> single_spaces original) \<and>
      LAND r = Str (str ''DEU'')) \<and>
   (\<forall>s. LAND r = Str s \<longrightarrow> s = str ''DEU'' \<or> (\<exists>c \<in> set cs. s = alpha3Code c)) \<and>
   (list_all (\<lambda>c. whitespace_normalized (alpha3Code c)) cs \<longrightarrow>
      (\<forall>s. LAND r = Str s \<longrightarrow> whitespace_normalized s \<and> cleanValue (Str s) = s)) \<and>
   (Object_prototype (lower countryStr) = Undefined \<longrightarrow> (\<exists>s. LAND r = Str s))"
proof -
  define r where "r = mapRow lower cs row index mapping"
  define country where "country = js_get (mapColumns lower row mapping) (str ''country'')"
  define countryStr where "countryStr = trim (js_String country)"
  define mapped where "mapped = js_get (buildCountryMapping lower cs) (lower countryStr)"
  have t: "whitespace_normalized (ADRESS_TYP r)"
    unfolding r_def mapRow_fields
    using mapAddressType_cases whitespace_normalized_constants by metis
  have n: "whitespace_normalized (NAME r)" "whitespace_normalized (ZUSATZ r)"
    "whitespace_normalized (STRASSE r)" "whitespace_normalized (NUMMER r)"
    "whitespace_normalized (PLZ r)" "whitespace_normalized (STADT r)"
    unfolding r_def mapRow_fields by (rule whitespace_normalized_cleanValue)+
  have l: "LAND r = (if truthy country \<and> countryStr \<noteq> [] \<and> truthy mapped then mapped
             else Str (str ''DEU''))"
    unfolding r_def mapRow_fields mapCountry_code
    by (simp add: country_def countryStr_def mapped_def)
  have u: "LAND_UNMAPPED_ORIGINAL r =
     (if truthy country \<and> countryStr \<noteq> [] \<and> \<not> truthy mapped then Some countryStr else None)"
    unfolding r_def mapRow_fields mapCountry_original
    by (simp add: country_def countryStr_def mapped_def)
  have tt: "trim countryStr = countryStr"
    unfolding countryStr_def by (rule trim_trim)
  have o: "original = countryStr \<and> original \<noteq> [] \<and> trim original = original \<and>
      cleanValue (Str original) = replace_ws_runs original \<and>
      (whitespace_normalized original \<longleftrightarrow> single_spaces original) \<and>
      LAND r = Str (str ''DEU'')"
    if "LAND_UNMAPPED_ORIGINAL r = Some original" for original
  proof -
    from that u have e: "original = countryStr" and ne: "countryStr \<noteq> []"
      and f: "\<not> truthy mapped"
      by (auto split: if_splits)
    from f l have "LAND r = Str (str ''DEU'')" by simp
    with e ne tt cleanValue_trimmed [OF ne tt] show ?thesis by simp
  qed
  have c: "mapped = Object_prototype (lower countryStr) \<or>
      (\<exists>c \<in> set cs. mapped = Str (alpha3Code c))"
    unfolding mapped_def by (rule country_lookup_cases)
  have s: "s = str ''DEU'' \<or> (\<exists>c \<in> set cs. s = alpha3Code c)" if "LAND r = Str s" for s
  proof (cases "truthy country \<and> countryStr \<noteq> [] \<and> truthy mapped")
    case True
    with l that have "mapped = Str s" by simp
    with c Object_prototype_not_Str [of "lower countryStr" s] show ?thesis by auto
  next
    case False
    with l that show ?thesis by simp
  qed
  have w: "whitespace_normalized s \<and> cleanValue (Str s) = s"
    if a: "list_all (\<lambda>c. whitespace_normalized (alpha3Code c)) cs" and b: "LAND r = Str s" for s
  proof -
    from s [OF b] a have "whitespace_normalized s"
      using whitespace_normalized_DEU by (auto simp: list_all_iff)
    then show ?thesis by (simp add: cleanValue_id)
  qed
  have p: "\<exists>s. LAND r = Str s" if "Object_prototype (lower countryStr) = Undefined"
  proof (cases "truthy country \<and> countryStr \<noteq> [] \<and> truthy mapped")
    case True
    with c that have "\<exists>c \<in> set cs. mapped = Str (alpha3Code c)" by auto
    with True l show ?thesis by auto
  next
    case False
    with l show ?thesis by simp
  qed
  from n t l u o s w p cleanValue_id show ?thesis
    unfolding Let_def r_def [symmetric] country_def [symmetric] countryStr_def [symmetric]
      mapped_def [symmetric]
    by blast
qed

theorem mapRow_fields_normalized_witness:
  "LAND_UNMAPPED_ORIGINAL (mapRow ascii_lower [germany] row_two_spaces 0 None) =
     Some (str ''Costa  Rica'') \<and>
   trim (js_String (js_get (mapColumns ascii_lower row_two_spaces None) (str ''country''))) =
     str ''Costa  Rica'' \<and>
   trim (str ''Costa  Rica'') = str ''Costa  Rica'' \<and>
   cleanValue (Str (str ''Costa  Rica'')) = replace_ws_runs (str ''Costa  Rica'') \<and>
   \<not> single_spaces (str ''Costa  Rica'') \<and>
   \<not> whitespace_normalized (str ''Costa  Rica'') \<and>
   Object_prototype (ascii_lower (str ''Costa  Rica'')) = Undefined \<and>
   LAND (mapRow ascii_lower [germany] row_two_spaces 0 None) = Str (str ''DEU'') \<and>
   whitespace_normalized (NAME (mapRow ascii_lower [germany] row_two_spaces 0 None)) \<and>
   list_all (\<lambda>c. whitespace_normalized (alpha3Code c)) [germany] \<and>
   js_get (buildCountryMapping ascii_lower [germany]) (str ''deutschland'') = Str (str ''DEU'') \<and>
   LAND (mapRow ascii_lower [germany] row0 0 None) = Str (str ''DEU'') \<and>
   LAND_UNMAPPED_ORIGINAL (mapRow ascii_lower [germany] row0 0 None) = None \<and>
   whitespace_normalized (str ''DEU'') \<and> cleanValue (Str (str ''DEU'')) = str ''DEU''"
proof -
  let ?p = "mapRow ascii_lower [germany] row_two_spaces 0 None"
  let ?q = "mapRow ascii_lower [germany] row0 0 None"
  note T = mapRow_fields_normalized [of ascii_lower "[germany]" row_two_spaces 0 None,
      unfolded Let_def]
  note T0 = mapRow_fields_normalized [of ascii_lower "[germany]" row0 0 None, unfolded Let_def]
  have m: "mapColumns ascii_lower row_two_spaces None = [(str ''country'', Str (str ''Costa  Rica''))]"
    by (simp add: mapColumns_def normalize_alias_def map_column_def row_two_spaces_def
      DEFAULT_COLUMN_MAPPING_def Object_entries_def is_array_index_def is_digit_def str_def
      ascii_lower_def is_ascii_upper_def js_set_def js_get_def Object_prototype_def Let_def)
  have g: "js_get [(str ''country'', Str (str ''Costa  Rica''))] (str ''country'') =
      Str (str ''Costa  Rica'')"
    by (simp add: js_get_def)
  have c: "mapCountry ascii_lower [germany] (Str (str ''Costa  Rica'')) =
      \<lparr>code = Str (str ''DEU''), unmappedOriginal = Some (str ''Costa  Rica'')\<rparr>"
    by (simp add: mapCountry_def str_def trim_def is_ws_def buildCountryMapping_def
      register_country_def germany_def js_set_def js_get_def ascii_lower_def is_ascii_upper_def
      Object_prototype_def)
  have 1: "LAND_UNMAPPED_ORIGINAL ?p = Some (str ''Costa  Rica'')"
    unfolding mapRow_fields m g c by (simp add: str_def)
  have 2: "trim (js_String (js_get (mapColumns ascii_lower row_two_spaces None) (str ''country''))) =
     str ''Costa  Rica''"
    unfolding m g by (simp add: trim_def str_def is_ws_def)
  have 3: "\<not> single_spaces (str ''Costa  Rica'')"
    by (simp add: str_def is_ws_def)
  have 4: "Object_prototype (ascii_lower (str ''Costa  Rica'')) = Undefined"
    by (simp add: Object_prototype_def ascii_lower_def is_ascii_upper_def str_def)
  have 5: "list_all (\<lambda>c. whitespace_normalized (alpha3Code c)) [germany]"
    by (simp add: germany_def whitespace_normalized_def str_def is_ws_def)
  have l: "lower_on_ascii ascii_lower" by (simp add: lower_on_ascii_def)
  have 6: "js_get (buildCountryMapping ascii_lower [germany]) (str ''deutschland'') = Str (str ''DEU'')"
    by (rule resolves_lookup [OF resolves_germany]) (simp add: str_def)
  have g0: "js_get (mapColumns ascii_lower row0 None) (str ''country'') = Str (str ''Deutschland'')"
    unfolding mapColumns_row0 [OF l] by (simp add: js_get_def str_def)
  have 7: "LAND ?q = Str (str ''DEU'')"
    unfolding mapRow_fields g0 mapCountry_Deutschland [OF l resolves_germany] by simp
  have 8: "LAND_UNMAPPED_ORIGINAL ?q = None"
    unfolding mapRow_fields g0 mapCountry_Deutschland [OF l resolves_germany] by simp
  from T 1 have a: "str ''Costa  Rica'' =
      trim (js_String (js_get (mapColumns ascii_lower row_two_spaces None) (str ''country''))) \<and>
    trim (str ''Costa  Rica'') = str ''Costa  Rica'' \<and>
    cleanValue (Str (str ''Costa  Rica'')) = replace_ws_runs (str ''Costa  Rica'') \<and>
    (whitespace_normalized (str ''Costa  Rica'') \<longleftrightarrow> single_spaces (str ''Costa  Rica'')) \<and>
    LAND ?p = Str (str ''DEU'')"
    by blast
  from T have b: "whitespace_normalized (NAME ?p)" by blast
  from T0 5 7 have d: "whitespace_normalized (str ''DEU'') \<and> cleanValue (Str (str ''DEU'')) = str ''DEU''"
    by blast
  from a b d 1 2 3 4 5 6 7 8 show ?thesis by simp
qed

section \<open>Country resolution\<close>

lemma mapCountry_empty:
  "\<not> truthy v \<or> trim (js_String v) = [] \<Longrightarrow>
   mapCountry lower cs v = \<lparr>code = Str (str ''DEU''), unmappedOriginal = None\<rparr>"
  by (auto simp: mapCountry_def)

lemma mapCountry_registered:
  assumes "truthy v" and "trim (js_String v) \<noteq> []"
    and "resolves lower cs (lower (trim (js_String v))) a" and "a \<noteq> []"
    and "lower (trim (js_String v)) \<noteq> str ''__proto__''"
  shows "mapCountry lower cs v = \<lparr>code = Str a, unmappedOriginal = None\<rparr>"
  using assms(1,2,4) resolves_lookup [OF assms(3,5)] by (simp add: mapCountry_def)

lemma mapCountry_unregistered:
  assumes "truthy v" and "trim (js_String v) \<noteq> []"
    and "\<not> list_ex (\<lambda>c. lower (trim (js_String v)) \<in> set (country_keys lower c)) cs"
    and "Object_prototype (lower (trim (js_String v))) = Undefined"
  shows "mapCountry lower cs v =
           \<lparr>code = Str (str ''DEU''), unmappedOriginal = Some (trim (js_String v))\<rparr>"
proof -
  from assms(4) have "lower (trim (js_String v)) \<noteq> str ''__proto__''"
    by (auto simp: Object_prototype_def)
  from unregistered_lookup [OF assms(3) this] assms show ?thesis
    by (simp add: mapCountry_def)
qed

lemma mapCountry_inherited:
  assumes "truthy v" and "trim (js_String v) \<noteq> []"
    and "\<not> list_ex (\<lambda>c. lower (trim (js_String v)) \<in> set (country_keys lower c)) cs"
    and "lower (trim (js_String v)) = str ''constructor''"
  shows "mapCountry lower cs v =
           \<lparr>code = native_function (str ''Object''), unmappedOriginal = None\<rparr>"
proof -
  have p: "str ''constructor'' \<noteq> str ''__proto__''" by (simp add: str_def)
  have o: "Object_prototype (str ''constructor'') = native_function (str ''Object'')"
    using p by (simp add: Object_prototype_def)
  from assms(3,4) have "js_get (buildCountryMapping lower cs) (str ''constructor'') =
      native_function (str ''Object'')"
    using unregistered_lookup [of "str ''constructor''" lower cs] p o by simp
  with assms show ?thesis
    by (simp add: mapCountry_def native_function_def)
qed

lemma mapCountry_examples:
  "mapCountry lower cs (Str []) = \<lparr>code = Str (str ''DEU''), unmappedOriginal = None\<rparr>"
  "mapCountry lower cs Undefined = \<lparr>code = Str (str ''DEU''), unmappedOriginal = None\<rparr>"
  "mapCountry ascii_lower [germany] (Str (str ''Atlantis'')) =
     \<lparr>code = Str (str ''DEU''), unmappedOriginal = Some (str ''Atlantis'')\<rparr>"
  "mapCountry ascii_lower [germany] (Str (str ''de'')) =
     \<lparr>code = Str (str ''DEU''), unmappedOriginal = None\<rparr>"
    apply (simp add: mapCountry_def)
   apply (simp add: mapCountry_def)
   apply (simp add: mapCountry_def str_def trim_def is_ws_def buildCountryMapping_def
      register_country_def germany_def js_set_def js_get_def ascii_lower_def is_ascii_upper_def
      Object_prototype_def)
  apply (simp add: mapCountry_def str_def trim_def is_ws_def buildCountryMapping_def
      register_country_def germany_def js_set_def js_get_def ascii_lower_def is_ascii_upper_def
      Object_prototype_def)
  done

text \<open>
  Claim C4 holds for an absent or empty country (\<open>mapCountry_empty\<close>), for a registered key
  (\<open>mapCountry_registered\<close>) and for an unregistered string that is no property name of
  \<^verbatim>\<open>Object.prototype\<close> (\<open>mapCountry_unregistered\<close>). It fails for the country "constructor":
  the lookup in the mapping object finds the inherited \<^verbatim>\<open>Object.prototype.constructor\<close>,
  which is truthy, so that built-in function is returned as the code, and no unmapped
  original is recorded.
\<close>

theorem mapCountry_constructor:
  "mapCountry ascii_lower [germany] (Str (str ''constructor'')) =
     \<lparr>code = native_function (str ''Object''), unmappedOriginal = None\<rparr> \<and>
   code (mapCountry ascii_lower [germany] (Str (str ''constructor''))) \<noteq> Str (str ''DEU'') \<and>
   unmappedOriginal (mapCountry ascii_lower [germany] (Str (str ''constructor''))) \<noteq>
     Some (str ''constructor'')"
proof -
  have t: "trim (str ''constructor'') = str ''constructor''"
    by (simp add: trim_def str_def is_ws_def)
  have l: "ascii_lower (str ''constructor'') = str ''constructor''"
    by (simp add: ascii_lower_def is_ascii_upper_def str_def)
  have n: "\<not> list_ex (\<lambda>c. str ''constructor'' \<in> set (country_keys ascii_lower c)) [germany]"
    by (simp add: country_keys_def germany_def ascii_lower_def is_ascii_upper_def str_def)
  have tr: "truthy (Str (str ''constructor''))" by (simp add: str_def)
  have ne: "trim (js_String (Str (str ''constructor''))) \<noteq> []"
    by (simp add: t) (simp add: str_def)
  have n': "\<not> list_ex (\<lambda>c. ascii_lower (trim (js_String (Str (str ''constructor''))))
      \<in> set (country_keys ascii_lower c)) [germany]"
    using n by (simp add: t l)
  have l': "ascii_lower (trim (js_String (Str (str ''constructor'')))) = str ''constructor''"
    by (simp add: t l)
  have "mapCountry ascii_lower [germany] (Str (str ''constructor'')) =
     \<lparr>code = native_function (str ''Object''), unmappedOriginal = None\<rparr>"
    by (rule mapCountry_inherited [OF tr ne n' l'])
  then show ?thesis by (simp add: native_function_def)
qed

section \<open>Column remapping\<close>

lemma normalize_alias_pair:
  "normalize_alias lower (source, target) nm = js_set nm (lower source) (Str target)"
  by (simp add: normalize_alias_def)

lemma map_of_normalizedMapping:
  assumes "lk \<noteq> str ''__proto__''"
  shows "map_of (fold (normalize_alias lower) es nm) lk =
     (case find (\<lambda>(source, target). lower source = lk) (rev es) of
        Some (source, target) \<Rightarrow> Some (Str target)
      | None \<Rightarrow> map_of nm lk)"
proof (induction es arbitrary: nm)
  case Nil
  show ?case by simp
next
  case (Cons e es)
  obtain source target where e: "e = (source, target)" by (cases e)
  show ?case
    by (simp add: e Cons.IH find_append_cases normalize_alias_pair
        map_of_js_set_other [OF assms] split: option.splits)
qed

text \<open>The key under which the code stores the value of a row key.\<close>

lemma map_column_pair:
  "map_column lower nm (k, v) mapped =
     js_set mapped
       (if truthy (js_get nm (lower k)) then js_String (js_get nm (lower k)) else lower k)
       v"
  by (simp add: map_column_def Let_def)

lemma map_of_fold_js_set:
  assumes "d \<noteq> str ''__proto__''"
  shows "map_of (fold (\<lambda>(x, y) m. js_set m (f x) y) es m) d =
     (case find (\<lambda>(x, y). f x = d) (rev es) of
        Some (x, y) \<Rightarrow> Some y
      | None \<Rightarrow> map_of m d)"
proof (induction es arbitrary: m)
  case Nil
  show ?case by simp
next
  case (Cons e es)
  obtain k v where e: "e = (k, v)" by (cases e)
  show ?case
    by (simp add: e Cons.IH find_append_cases map_of_js_set_other [OF assms]
        split: option.splits)
qed

lemma map_column_js_set:
  "map_column lower nm =
     (\<lambda>(x, y) m. js_set m
        (if truthy (js_get nm (lower x)) then js_String (js_get nm (lower x)) else lower x) y)"
  by (auto simp: map_column_def Let_def fun_eq_iff)

lemma map_of_fold_map_column:
  assumes "d \<noteq> str ''__proto__''"
  shows "map_of (fold (map_column lower nm) es m) d =
     (case find (\<lambda>(x, y).
              (if truthy (js_get nm (lower x)) then js_String (js_get nm (lower x))
               else lower x) = d) (rev es) of
        Some (x, y) \<Rightarrow> Some y
      | None \<Rightarrow> map_of m d)"
  unfolding map_column_js_set by (rule map_of_fold_js_set [OF assms])

lemma stored_key_is_column_target:
  assumes "Object_prototype (lower k) = Undefined"
    and "list_all (\<lambda>(source, target). target \<noteq> []) aliases"
  shows "(let t = js_get (fold (normalize_alias lower) (Object_entries aliases) []) (lower k)
          in if truthy t then js_String t else lower k) =
         column_target lower aliases k"
proof -
  from assms(1) have p: "lower k \<noteq> str ''__proto__''"
    by (auto simp: Object_prototype_def)
  have set_entries: "set (Object_entries aliases) = set aliases"
    by (auto simp: Object_entries_def)
  show ?thesis
  proof (cases "find (\<lambda>(source, target). lower source = lower k) (rev (Object_entries aliases))")
    case None
    then show ?thesis
      using assms(1)
      by (simp add: js_get_def map_of_normalizedMapping [OF p] column_target_def)
  next
    case (Some e)
    obtain source target where e: "e = (source, target)" by (cases e)
    from find_Some_set [OF Some] e have "(source, target) \<in> set aliases"
      by (simp add: set_entries)
    with assms(2) have "target \<noteq> []" by (auto simp: list_all_iff)
    with Some e show ?thesis
      by (simp add: js_get_def map_of_normalizedMapping [OF p] column_target_def)
  qed
qed

text \<open>
  Claim C5 says that no input value is dropped. Two row keys that differ only in case have
  the same target, and the value of the later one replaces the value of the earlier one:
  of the row with Name "a" and NAME "b" only "b" is left, under last_name.
\<close>

theorem mapColumns_case_collision:
  "mapColumns ascii_lower row_case_collision None = [(str ''last_name'', Str (str ''b''))] \<and>
   Str (str ''a'') \<notin> snd ` set (mapColumns ascii_lower row_case_collision None)"
proof -
  have "mapColumns ascii_lower row_case_collision None = [(str ''last_name'', Str (str ''b''))]"
    by (simp add: mapColumns_def normalize_alias_def map_column_def row_case_collision_def
      DEFAULT_COLUMN_MAPPING_def Object_entries_def is_array_index_def is_digit_def str_def
      ascii_lower_def is_ascii_upper_def js_set_def js_get_def Object_prototype_def Let_def)
  then show ?thesis by (simp add: str_def)
qed

text \<open>
  Claim C5, amended. Alias keys and row keys are lower-cased for matching, and a
  caller-supplied alias table replaces the default one. Where no row key lower-cases to a
  property name of \<^verbatim>\<open>Object.prototype\<close> and no alias has an empty target, the remapped row
  binds a key \<open>d\<close> (other than \<^verbatim>\<open>__proto__\<close>) to the value, unchanged, of the last row entry
  whose target is \<open>d\<close>, and binds no other key. So the value of a row key is kept under the
  key's target unless another row key has the same target.
\<close>

theorem mapColumns_targets:
  assumes "aliases = (case customMapping of Some m \<Rightarrow> m | None \<Rightarrow> DEFAULT_COLUMN_MAPPING)"
    and "list_all (\<lambda>(x, y). Object_prototype (lower x) = Undefined) row"
    and "list_all (\<lambda>(source, target). target \<noteq> []) aliases"
  shows "(d \<noteq> str ''__proto__'' \<longrightarrow>
           map_of (mapColumns lower row customMapping) d =
             (case find (\<lambda>(x, y). column_target lower aliases x = d)
                     (rev (Object_entries row)) of
                Some (x, y) \<Rightarrow> Some y
              | None \<Rightarrow> None)) \<and>
         ((k, v) \<in> set row \<and> column_target lower aliases k \<noteq> str ''__proto__'' \<and>
          (\<forall>(k', v') \<in> set row.
              (k', v') \<noteq> (k, v) \<longrightarrow>
              column_target lower aliases k' \<noteq> column_target lower aliases k) \<longrightarrow>
           map_of (mapColumns lower row customMapping) (column_target lower aliases k) =
             Some v)"
proof -
  let ?nm = "fold (normalize_alias lower) (Object_entries aliases) []"
  let ?stored = "\<lambda>k. if truthy (js_get ?nm (lower k)) then js_String (js_get ?nm (lower k))
     else lower k"
  have set_entries: "set (Object_entries row) = set row"
    by (auto simp: Object_entries_def)
  have stored: "?stored k' = column_target lower aliases k'" if "(k', v') \<in> set row" for k' v'
  proof -
    from that assms(2) have "Object_prototype (lower k') = Undefined"
      by (auto simp: list_all_iff)
    from stored_key_is_column_target [of lower k' aliases, OF this assms(3)]
    show ?thesis by (simp add: Let_def)
  qed
  have m: "mapColumns lower row customMapping = fold (map_column lower ?nm) (Object_entries row) []"
    by (simp add: mapColumns_def assms(1))
  have f: "find (\<lambda>(x, y). ?stored x = d') (rev (Object_entries row)) =
      find (\<lambda>(x, y). column_target lower aliases x = d') (rev (Object_entries row))" for d'
    by (rule find_cong) (auto simp: set_entries stored)
  have main: "map_of (mapColumns lower row customMapping) d' =
      (case find (\<lambda>(x, y). column_target lower aliases x = d') (rev (Object_entries row)) of
         Some (x, y) \<Rightarrow> Some y
       | None \<Rightarrow> None)" if "d' \<noteq> str ''__proto__''" for d'
    unfolding m map_of_fold_map_column [OF that] f by (simp split: option.splits)
  have kept: "map_of (mapColumns lower row customMapping) (column_target lower aliases k) =
      Some v"
    if kv: "(k, v) \<in> set row" and p: "column_target lower aliases k \<noteq> str ''__proto__''"
      and u: "\<forall>(k', v') \<in> set row. (k', v') \<noteq> (k, v) \<longrightarrow>
        column_target lower aliases k' \<noteq> column_target lower aliases k"
  proof -
    let ?P = "\<lambda>(k', v'). column_target lower aliases k' = column_target lower aliases k"
    from kv have "(k, v) \<in> set (rev (Object_entries row))" by (simp add: set_entries)
    then have "find ?P (rev (Object_entries row)) \<noteq> None"
      by (auto simp: find_None_iff)
    then obtain e where e: "find ?P (rev (Object_entries row)) = Some e" by blast
    from find_Some_set [OF e] have "?P e" "e \<in> set row" by (simp_all add: set_entries)
    with u have "e = (k, v)" by (cases e) auto
    with e show ?thesis unfolding main [OF p] by simp
  qed
  from main kept show ?thesis by blast
qed

theorem mapColumns_targets_witness:
  "list_all (\<lambda>(x, y). Object_prototype (ascii_lower x) = Undefined) row0 \<and>
   list_all (\<lambda>(source, target). target \<noteq> []) DEFAULT_COLUMN_MAPPING \<and>
   column_target ascii_lower DEFAULT_COLUMN_MAPPING (str ''Vorname'') = str ''first_name'' \<and>
   map_of (mapColumns ascii_lower row0 None) (str ''first_name'') = Some (Str (str ''Max''))"
proof -
  have a: "DEFAULT_COLUMN_MAPPING = (case None of Some m \<Rightarrow> m | None \<Rightarrow> DEFAULT_COLUMN_MAPPING)"
    by simp
  have r: "list_all (\<lambda>(x, y). Object_prototype (ascii_lower x) = Undefined) row0"
    by (simp add: row0_def Object_prototype_def ascii_lower_def is_ascii_upper_def str_def)
  have t: "list_all (\<lambda>(source, target). target \<noteq> []) DEFAULT_COLUMN_MAPPING"
    by (simp add: DEFAULT_COLUMN_MAPPING_def str_def)
  have e: "Object_entries DEFAULT_COLUMN_MAPPING = DEFAULT_COLUMN_MAPPING"
    by (simp add: Object_entries_def DEFAULT_COLUMN_MAPPING_def is_array_index_def is_digit_def
        str_def)
  have ct: "column_target ascii_lower DEFAULT_COLUMN_MAPPING x =
      (if ascii_lower x = str ''land'' then str ''country''
       else if ascii_lower x = str ''ort'' then str ''city''
       else if ascii_lower x = str ''plz'' then str ''postal_code''
       else if ascii_lower x = str ''adresse2'' then str ''address_addition''
       else if ascii_lower x = str ''adresse1'' then str ''street''
       else if ascii_lower x = str ''name'' then str ''last_name''
       else if ascii_lower x = str ''vorname'' then str ''first_name''
       else if ascii_lower x = str ''anrede'' then str ''salutation''
       else ascii_lower x)" for x
    unfolding column_target_def e
    by (simp add: DEFAULT_COLUMN_MAPPING_def ascii_lower_def is_ascii_upper_def str_def)
  have c: "column_target ascii_lower DEFAULT_COLUMN_MAPPING (str ''Vorname'') = str ''first_name''"
    unfolding ct by (simp add: ascii_lower_def is_ascii_upper_def str_def)
  have kv: "(str ''Vorname'', Str (str ''Max'')) \<in> set row0"
    by (simp add: row0_def)
  have p: "column_target ascii_lower DEFAULT_COLUMN_MAPPING (str ''Vorname'') \<noteq>
      str ''__proto__''"
    unfolding c by (simp add: str_def)
  have u: "\<forall>(x', y') \<in> set row0. (x', y') \<noteq> (str ''Vorname'', Str (str ''Max'')) \<longrightarrow>
      column_target ascii_lower DEFAULT_COLUMN_MAPPING x' \<noteq>
      column_target ascii_lower DEFAULT_COLUMN_MAPPING (str ''Vorname'')"
    unfolding c ct by (simp add: row0_def ascii_lower_def is_ascii_upper_def str_def)
  from mapColumns_targets [OF a r t, of _ "str ''Vorname''" "Str (str ''Max'')"] kv p u
  have "map_of (mapColumns ascii_lower row0 None)
      (column_target ascii_lower DEFAULT_COLUMN_MAPPING (str ''Vorname'')) =
      Some (Str (str ''Max''))"
    by blast
  then have "map_of (mapColumns ascii_lower row0 None) (str ''first_name'') =
      Some (Str (str ''Max''))"
    unfolding c .
  with r t c show ?thesis by blast
qed

section \<open>Street and house number\<close>

subsection \<open>The character classes\<close>

lemma digit_not_ws: "is_digit c \<Longrightarrow> \<not> is_ws c"
  by (auto simp: is_digit_def is_ws_def)

lemma number_suffix_not_ws: "is_number_suffix c \<Longrightarrow> \<not> is_ws c"
  by (auto simp: is_number_suffix_def is_ws_def)

lemma number_suffix_not_digit: "is_number_suffix c \<Longrightarrow> \<not> is_digit c"
  by (auto simp: is_number_suffix_def is_digit_def)

lemma line_terminator_ws: "is_line_terminator c \<Longrightarrow> is_ws c"
  by (auto simp: is_line_terminator_def is_ws_def)

subsection \<open>House numbers\<close>

lemma is_house_number_iff:
  "is_house_number n \<longleftrightarrow>
     takeWhile is_digit n \<noteq> [] \<and>
     (dropWhile is_digit n = [] \<or>
      (length (dropWhile is_digit n) = 1 \<and> is_number_suffix (hd (dropWhile is_digit n))))"
  (is "?L \<longleftrightarrow> ?R")
proof
  assume ?L
  then have ne: "n \<noteq> []"
    and c: "list_all is_digit n \<or>
      (butlast n \<noteq> [] \<and> list_all is_digit (butlast n) \<and> is_number_suffix (last n))"
    by (auto simp: is_house_number_def)
  from c show ?R
  proof
    assume "list_all is_digit n"
    then have a: "\<forall>x \<in> set n. is_digit x" by (simp add: list_all_iff)
    with ne have "takeWhile is_digit n \<noteq> []" by (cases n) auto
    moreover from a have "dropWhile is_digit n = []" by simp
    ultimately show ?R by simp
  next
    assume a: "butlast n \<noteq> [] \<and> list_all is_digit (butlast n) \<and> is_number_suffix (last n)"
    from ne have n: "n = butlast n @ [last n]" by simp
    from a have nd: "\<not> is_digit (last n)" by (simp add: number_suffix_not_digit)
    from a have all: "\<forall>x \<in> set (butlast n). is_digit x" by (simp add: list_all_iff)
    have "takeWhile is_digit (butlast n @ [last n]) = butlast n"
      using all nd by (simp add: takeWhile_append2)
    moreover have "dropWhile is_digit (butlast n @ [last n]) = [last n]"
      using all nd by (simp add: dropWhile_append2)
    ultimately show ?R using a n by (metis One_nat_def length_Cons list.sel(1) list.size(3))
  qed
next
  assume r: ?R
  let ?d = "takeWhile is_digit n" and ?r = "dropWhile is_digit n"
  have n: "n = ?d @ ?r" by simp
  have all: "list_all is_digit ?d" by (simp add: list_all_iff) (meson set_takeWhileD)
  from r have ne: "n \<noteq> []" by auto
  from r have "?r = [] \<or> (length ?r = 1 \<and> is_number_suffix (hd ?r))" by simp
  then show ?L
  proof
    assume "?r = []"
    with n have "n = ?d" by simp
    with all ne show ?L by (simp add: is_house_number_def)
  next
    assume a: "length ?r = 1 \<and> is_number_suffix (hd ?r)"
    then obtain c where c: "?r = [c]" "is_number_suffix c"
      by (cases ?r) auto
    with n have "n = ?d @ [c]" by simp
    then have "butlast n = ?d" "last n = c" by (metis butlast_snoc, metis last_snoc)
    with r all c ne show ?L by (simp add: is_house_number_def)
  qed
qed

lemma house_number_no_ws:
  assumes "is_house_number n"
  shows "\<forall>x \<in> set n. \<not> is_ws x"
proof
  fix x assume x: "x \<in> set n"
  from assms have ne: "n \<noteq> []" by (simp add: is_house_number_def)
  then have n: "n = butlast n @ [last n]" by simp
  from assms consider "list_all is_digit n"
    | "list_all is_digit (butlast n) \<and> is_number_suffix (last n)"
    by (auto simp: is_house_number_def)
  then show "\<not> is_ws x"
  proof cases
    case 1
    with x show ?thesis by (auto simp: list_all_iff digit_not_ws)
  next
    case 2
    from x n have "x \<in> set (butlast n) \<or> x = last n"
      by (metis Un_iff empty_iff insert_iff list.set(1) list.set(2) set_append)
    with 2 show ?thesis by (auto simp: list_all_iff digit_not_ws number_suffix_not_ws)
  qed
qed


subsection \<open>The tail of the pattern\<close>

lemma match_number_tail_Some:
  "match_number_tail xs = Some n \<longleftrightarrow>
     takeWhile is_ws xs \<noteq> [] \<and> n = dropWhile is_ws xs \<and> is_house_number n"
  by (auto simp: match_number_tail_def Let_def is_house_number_iff)

subsection \<open>Splitting a string before its last token\<close>

lemma takeWhile_prefix:
  "\<forall>x \<in> set xs. P x \<Longrightarrow> ys = [] \<or> \<not> P (hd ys) \<Longrightarrow> takeWhile P (xs @ ys) = xs"
  by (induction xs) (auto, cases ys, auto)

lemma dropWhile_prefix:
  "\<forall>x \<in> set xs. P x \<Longrightarrow> ys = [] \<or> \<not> P (hd ys) \<Longrightarrow> dropWhile P (xs @ ys) = ys"
  by (induction xs) (auto, cases ys, auto)

lemma tokens_of_parts:
  assumes "p \<noteq> []" and "\<not> is_ws (last p)" and "w \<noteq> []" and "\<forall>x \<in> set w. is_ws x"
    and "n \<noteq> []" and "\<forall>x \<in> set n. \<not> is_ws x"
  shows "last_token (p @ w @ n) = n" and "before_last_token (p @ w @ n) = p"
proof -
  have r: "rev (p @ w @ n) = rev n @ rev w @ rev p" by simp
  from assms(3,4) have hw: "is_ws (hd (rev w @ rev p))"
    by (metis hd_append2 hd_rev last_in_set rev_is_Nil_conv)
  have t: "takeWhile (\<lambda>c. \<not> is_ws c) (rev n @ rev w @ rev p) = rev n"
    by (rule takeWhile_prefix) (use assms(6) hw in simp_all)
  have d: "dropWhile (\<lambda>c. \<not> is_ws c) (rev n @ rev w @ rev p) = rev w @ rev p"
    by (rule dropWhile_prefix) (use assms(6) hw in simp_all)
  from assms(1,2) have hp: "\<not> is_ws (hd (rev p))" by (simp add: hd_rev)
  have d2: "dropWhile is_ws (rev w @ rev p) = rev p"
    by (rule dropWhile_prefix) (use assms(4) hp in simp_all)
  show "last_token (p @ w @ n) = n" unfolding last_token_def r t by simp
  show "before_last_token (p @ w @ n) = p" unfolding before_last_token_def r d d2 by simp
qed


lemma takeWhile_nonempty: "xs \<noteq> [] \<Longrightarrow> P (hd xs) \<Longrightarrow> takeWhile P xs \<noteq> []"
  by (cases xs) auto

lemma parts_of_trimmed:
  assumes "s \<noteq> []" and "\<not> is_ws (hd s)" and "\<not> is_ws (last s)" and "list_ex is_ws s"
  shows "\<exists>w. s = before_last_token s @ w @ last_token s \<and>
     before_last_token s \<noteq> [] \<and> \<not> is_ws (last (before_last_token s)) \<and>
     w \<noteq> [] \<and> (\<forall>x \<in> set w. is_ws x) \<and>
     last_token s \<noteq> [] \<and> (\<forall>x \<in> set (last_token s). \<not> is_ws x)"
proof -
  define r where "r = rev s"
  define n where "n = takeWhile (\<lambda>c. \<not> is_ws c) r"
  define m where "m = dropWhile (\<lambda>c. \<not> is_ws c) r"
  define w where "w = takeWhile is_ws m"
  define p where "p = dropWhile is_ws m"
  have lt: "last_token s = rev n" by (simp add: last_token_def n_def r_def)
  have bt: "before_last_token s = rev p" by (simp add: before_last_token_def p_def m_def r_def)
  have "r = n @ m" by (simp add: n_def m_def)
  moreover have "m = w @ p" by (simp add: w_def p_def)
  ultimately have "r = n @ w @ p" by simp
  then have "rev r = rev p @ rev w @ rev n" by simp
  moreover have "rev r = s" by (simp add: r_def)
  ultimately have "s = rev p @ rev w @ rev n" by simp
  then have s: "s = before_last_token s @ rev w @ last_token s" unfolding lt bt .
  have r: "r \<noteq> []" using assms(1) by (simp add: r_def)
  have hr: "\<not> is_ws (hd r)" using assms(1,3) by (simp add: r_def hd_rev)
  have lr: "\<not> is_ws (last r)" using assms(1,2) by (simp add: r_def last_rev)
  have n: "n \<noteq> []" unfolding n_def using r hr by (rule takeWhile_nonempty)
  from assms(4) have "\<exists>x \<in> set r. is_ws x" by (simp add: list_ex_iff r_def)
  then have m: "m \<noteq> []" by (simp add: m_def dropWhile_eq_Nil_conv)
  have "\<not> \<not> is_ws (hd m)" using m unfolding m_def by (rule hd_dropWhile_not)
  then have hm: "is_ws (hd m)" by simp
  have w: "w \<noteq> []" unfolding w_def using m hm by (rule takeWhile_nonempty)
  have lm: "last m = last r" using m unfolding m_def by (rule last_dropWhile)
  have p: "p \<noteq> []"
  proof
    assume "p = []"
    then have "\<forall>x \<in> set m. is_ws x" by (simp add: p_def dropWhile_eq_Nil_conv)
    moreover have "last m \<in> set m" using m by (rule last_in_set)
    ultimately have "is_ws (last m)" by blast
    with lm lr show False by simp
  qed
  have hp: "\<not> is_ws (hd p)" using p unfolding p_def by (rule hd_dropWhile_not)
  have 1: "before_last_token s \<noteq> []" using p by (simp add: bt)
  have 2: "\<not> is_ws (last (before_last_token s))" using p hp by (simp add: bt last_rev)
  have 3: "rev w \<noteq> []" using w by simp
  have "\<forall>x \<in> set w. is_ws x" unfolding w_def by (blast dest: set_takeWhileD)
  then have 4: "\<forall>x \<in> set (rev w). is_ws x" by simp
  have 5: "last_token s \<noteq> []" using n by (simp add: lt)
  have "\<forall>x \<in> set n. \<not> is_ws x" unfolding n_def by (blast dest: set_takeWhileD)
  then have 6: "\<forall>x \<in> set (last_token s). \<not> is_ws x" by (simp add: lt)
  from s 1 2 3 4 5 6 show ?thesis by blast
qed

subsection \<open>One attempt of the pattern\<close>

lemma trailing_attempt_Some:
  "trailing_attempt k s = Some (g1, g2) \<longleftrightarrow>
     k < length s \<and> \<not> is_ws (s ! k) \<and> g1 = take (Suc k) s \<and>
     takeWhile is_ws (drop (Suc k) s) \<noteq> [] \<and> g2 = dropWhile is_ws (drop (Suc k) s) \<and>
     is_house_number g2"
  by (auto simp: trailing_attempt_def match_number_tail_Some)

lemma trailing_attempt_parts:
  assumes "trailing_attempt k s = Some (g1, g2)"
  shows "before_last_token s = g1" and "last_token s = g2" and "list_ex is_ws s"
    and "Suc k = length g1" and "is_house_number g2"
proof -
  define d where "d = drop (Suc k) s"
  define w where "w = takeWhile is_ws d"
  from assms have "k < length s \<and> \<not> is_ws (s ! k) \<and> g1 = take (Suc k) s \<and>
     takeWhile is_ws (drop (Suc k) s) \<noteq> [] \<and> g2 = dropWhile is_ws (drop (Suc k) s) \<and>
     is_house_number g2"
    by (rule iffD1 [OF trailing_attempt_Some])
  then have k: "k < length s" and nk: "\<not> is_ws (s ! k)" and g1: "g1 = take (Suc k) s"
    and w: "w \<noteq> []" and g2: "g2 = dropWhile is_ws d" and h: "is_house_number g2"
    unfolding d_def w_def by blast+
  have "d = w @ g2" by (simp add: w_def g2)
  moreover have "s = g1 @ d" by (simp add: g1 d_def)
  ultimately have s: "s = g1 @ w @ g2" by simp
  from k have t: "take (Suc k) s = take k s @ [s ! k]" by (rule take_Suc_conv_app_nth)
  have p1: "g1 \<noteq> []" using k by (simp add: g1 t)
  have p2: "\<not> is_ws (last g1)" using nk by (simp add: g1 t)
  have p4: "\<forall>x \<in> set w. is_ws x" unfolding w_def by (blast dest: set_takeWhileD)
  from h have p5: "g2 \<noteq> []" by (simp add: is_house_number_def)
  have p6: "\<forall>x \<in> set g2. \<not> is_ws x" using h by (rule house_number_no_ws)
  have "before_last_token (g1 @ w @ g2) = g1" using p1 p2 w p4 p5 p6 by (rule tokens_of_parts(2))
  then show "before_last_token s = g1" using s by simp
  have "last_token (g1 @ w @ g2) = g2" using p1 p2 w p4 p5 p6 by (rule tokens_of_parts(1))
  then show "last_token s = g2" using s by simp
  from w obtain x where "x \<in> set w" by (cases w) auto
  with p4 have "x \<in> set s \<and> is_ws x" unfolding s [unfolded append_assoc] by simp
  then show "list_ex is_ws s" unfolding list_ex_iff by blast
  show "Suc k = length g1" using k by (simp add: g1)
  show "is_house_number g2" by (rule h)
qed

lemma trailing_attempt_at_last_token:
  assumes "s \<noteq> []" and "\<not> is_ws (hd s)" and "\<not> is_ws (last s)" and "list_ex is_ws s"
    and "is_house_number (last_token s)"
  shows "trailing_attempt (length (before_last_token s) - 1) s =
           Some (before_last_token s, last_token s)"
proof -
  define p where "p = before_last_token s"
  define n where "n = last_token s"
  from parts_of_trimmed [OF assms(1-4)] obtain w where
    s: "s = p @ w @ n" and p1: "p \<noteq> []" and p2: "\<not> is_ws (last p)"
    and w1: "w \<noteq> []" and w2: "\<forall>x \<in> set w. is_ws x"
    and n1: "n \<noteq> []" and n2: "\<forall>x \<in> set n. \<not> is_ws x"
    unfolding p_def n_def by blast
  define k where "k = length p - 1"
  from p1 have sk: "Suc k = length p" by (simp add: k_def)
  then have kp: "k < length p" by simp
  have k: "k < length (p @ w @ n)" using kp by simp
  have "(p @ w @ n) ! k = p ! k" using kp by (simp add: nth_append)
  also have "\<dots> = last p" using p1 by (simp add: last_conv_nth k_def)
  finally have nk: "\<not> is_ws ((p @ w @ n) ! k)" using p2 by simp
  have tk: "take (Suc k) (p @ w @ n) = p" by (simp add: sk)
  have dr: "drop (Suc k) (p @ w @ n) = w @ n" by (simp add: sk)
  from n1 n2 have hn: "n = [] \<or> \<not> is_ws (hd n)" by (cases n) auto
  have tw: "takeWhile is_ws (w @ n) = w" using w2 hn by (rule takeWhile_prefix)
  have dw: "dropWhile is_ws (w @ n) = n" using w2 hn by (rule dropWhile_prefix)
  from assms(5) have h: "is_house_number n" by (simp add: n_def)
  have "k < length (p @ w @ n) \<and> \<not> is_ws ((p @ w @ n) ! k) \<and>
     p = take (Suc k) (p @ w @ n) \<and>
     takeWhile is_ws (drop (Suc k) (p @ w @ n)) \<noteq> [] \<and>
     n = dropWhile is_ws (drop (Suc k) (p @ w @ n)) \<and> is_house_number n"
    unfolding tk dr tw dw using k nk w1 h by blast
  then have "trailing_attempt k (p @ w @ n) = Some (p, n)"
    by (rule iffD2 [OF trailing_attempt_Some])
  then have "trailing_attempt k s = Some (p, n)" unfolding s [symmetric] .
  then show ?thesis unfolding k_def p_def n_def .
qed

subsection \<open>Backtracking\<close>

lemma trailing_backtrack_None:
  "\<forall>k \<le> K. trailing_attempt k s = None \<Longrightarrow> trailing_backtrack K s = None"
  by (induction K) auto

lemma trailing_backtrack_Some:
  "k0 \<le> K \<Longrightarrow> trailing_attempt k0 s = Some g \<Longrightarrow>
   \<forall>k. k0 < k \<and> k \<le> K \<longrightarrow> trailing_attempt k s = None \<Longrightarrow>
   trailing_backtrack K s = Some g"
proof (induction K)
  case 0
  then show ?case by simp
next
  case (Suc K)
  show ?case
  proof (cases "k0 = Suc K")
    case True
    with Suc.prems show ?thesis by simp
  next
    case False
    with Suc.prems have "k0 \<le> K" by simp
    moreover from False Suc.prems have "trailing_attempt (Suc K) s = None" by simp
    moreover from Suc.prems have "\<forall>k. k0 < k \<and> k \<le> K \<longrightarrow> trailing_attempt k s = None"
      by simp
    ultimately show ?thesis using Suc.IH Suc.prems(2) by simp
  qed
qed

lemma length_takeWhile_le_index:
  "j < length xs \<Longrightarrow> \<not> P (xs ! j) \<Longrightarrow> length (takeWhile P xs) \<le> j"
proof (induction xs arbitrary: j)
  case Nil
  then show ?case by simp
next
  case (Cons x xs)
  then show ?case by (cases j) auto
qed

lemma trailingMatch_trimmed:
  assumes "s \<noteq> []" and "\<not> is_ws (hd s)" and "\<not> is_ws (last s)"
  shows "trailingMatch s =
     (if list_ex is_ws s \<and> is_house_number (last_token s) \<and>
         \<not> list_ex is_line_terminator (before_last_token s)
      then Some (before_last_token s, last_token s) else None)"
proof -
  define K where "K = length (takeWhile (\<lambda>c. \<not> is_line_terminator c) s)"
  define p where "p = before_last_token s"
  define k0 where "k0 = length p - 1"
  have tm: "trailingMatch s = trailing_backtrack K s" by (simp add: trailingMatch_def K_def)
  have only: "k = k0" if "trailing_attempt k s = Some g" for k g
  proof -
    obtain g1 g2 where "g = (g1, g2)" by (cases g)
    with that have "trailing_attempt k s = Some (g1, g2)" by simp
    from trailing_attempt_parts(1,4) [OF this] show ?thesis by (simp add: k0_def p_def)
  qed
  show ?thesis
  proof (cases "list_ex is_ws s \<and> is_house_number (last_token s)")
    case False
    have "trailing_attempt k s = None" for k
    proof (cases "trailing_attempt k s")
      case None
      then show ?thesis .
    next
      case (Some g)
      obtain g1 g2 where "g = (g1, g2)" by (cases g)
      with Some have a: "trailing_attempt k s = Some (g1, g2)" by simp
      from trailing_attempt_parts(2,3,5) [OF a] False show ?thesis by simp
    qed
    then have "trailing_backtrack K s = None" by (intro trailing_backtrack_None) simp
    with False show ?thesis by (auto simp: tm)
  next
    case True
    then have at: "trailing_attempt k0 s = Some (p, last_token s)"
      unfolding k0_def p_def using trailing_attempt_at_last_token [OF assms] by simp
    from parts_of_trimmed [OF assms] True obtain w where
      s: "s = p @ w @ last_token s" and p1: "p \<noteq> []" and p2: "\<not> is_ws (last p)"
      unfolding p_def by blast
    from p1 have k0p: "k0 < length p" by (simp add: k0_def)
    show ?thesis
    proof (cases "list_ex is_line_terminator p")
      case False
      then have "\<forall>x \<in> set p. \<not> is_line_terminator x" by (simp add: list_ex_iff)
      then have "takeWhile (\<lambda>c. \<not> is_line_terminator c) (p @ (w @ last_token s)) =
          p @ takeWhile (\<lambda>c. \<not> is_line_terminator c) (w @ last_token s)"
        by (simp add: takeWhile_append2)
      then have "length p \<le> K" unfolding K_def using s by (metis le_add1 length_append)
      with k0p have "k0 \<le> K" by simp
      moreover have "\<forall>k. k0 < k \<and> k \<le> K \<longrightarrow> trailing_attempt k s = None"
        using only by (metis less_irrefl option.exhaust)
      ultimately have "trailing_backtrack K s = Some (p, last_token s)"
        using at by (intro trailing_backtrack_Some)
      with True False show ?thesis by (simp add: tm p_def)
    next
      case lt: True
      then obtain x where x: "x \<in> set p" "is_line_terminator x" by (auto simp: list_ex_iff)
      then obtain j where j: "j < length p" "p ! j = x" by (auto simp: in_set_conv_nth)
      have "j \<noteq> k0"
      proof
        assume "j = k0"
        with j p1 have "x = last p" by (simp add: last_conv_nth k0_def)
        with x(2) p2 show False by (simp add: line_terminator_ws)
      qed
      with j(1) have jk: "j < k0" by (simp add: k0_def)
      from j(1) have "j < length s" using s by (metis length_append trans_less_add1)
      moreover have "s ! j = x" using j s by (metis nth_append)
      ultimately have "K \<le> j" unfolding K_def using x(2)
        by (intro length_takeWhile_le_index) simp_all
      with jk have "K < k0" by simp
      then have "\<forall>k \<le> K. trailing_attempt k s = None"
        using only by (metis leD option.exhaust)
      then have "trailing_backtrack K s = None" by (rule trailing_backtrack_None)
      with lt show ?thesis by (simp add: tm p_def)
    qed
  qed
qed

subsection \<open>The rules\<close>

lemma splitStreetNumber_truthy:
  assumes "truthy v"
  shows "splitStreetNumber v = splitStreetNumber_rules (js_String v)"
proof (cases "trim (js_String v) = []")
  case True
  have "split_ws [] = [[]]" by (simp add: split_ws_def)
  with True assms show ?thesis
    by (simp add: splitStreetNumber_def splitStreetNumber_rules_def)
next
  case False
  note t = trailingMatch_trimmed [OF False trim_ends [OF False]]
  from False assms show ?thesis
    by (simp add: splitStreetNumber_def splitStreetNumber_rules_def Let_def t)
qed

lemma splitStreetNumber_line_break:
  "splitStreetNumber (Str (str ''A'' @ [0xA] @ str ''B 1'')) = (str ''A B'', str ''1'')"
  "splitStreetNumber_claimed (str ''A'' @ [0xA] @ str ''B 1'') = (str ''A'' @ [0xA] @ str ''B'', str ''1'')"
  by (simp_all add: splitStreetNumber_def splitStreetNumber_claimed_def string_eval
      last_token_def before_last_token_def is_house_number_def)

text \<open>
  Claim C2 states rule (b) for every input whose last token contains a digit. The code
  applies rules (b) and (c) only when there are two tokens at least: for the one-token
  street "12" the rules as claimed give the number "12" and an empty street, the code
  gives the street "12" and an empty number.
\<close>

theorem splitStreetNumber_single_token:
  "splitStreetNumber (Str (str ''12'')) = (str ''12'', []) \<and>
   splitStreetNumber_claimed (str ''12'') = ([], str ''12'') \<and>
   splitStreetNumber (Str (str ''12'')) \<noteq> splitStreetNumber_claimed (str ''12'')"
  by (simp add: splitStreetNumber_def splitStreetNumber_claimed_def string_eval
      last_token_def before_last_token_def is_house_number_def)

text \<open>
  Claim C2, amended. For every street input the code applies exactly one of four rules,
  the first that matches, to the trimmed string: (a) if it ends in whitespace followed by a
  house number (digits with an optional single trailing letter, hyphen or slash) and the
  part before that whitespace contains no line terminator, the result is that part and the
  house number; (b) otherwise, if there are two tokens at least and the last one contains
  a digit, the result is the other tokens joined by single spaces, and the last token;
  (c) otherwise, if there are two tokens at least and the first one contains a digit, the
  result is the other tokens joined by single spaces, and the first token; (d) otherwise
  the whole trimmed string and an empty number. A falsy input gives two empty strings. The
  three examples of the claim hold.
\<close>

theorem splitStreetNumber_applies_rules:
  "splitStreetNumber v =
     (if truthy v then splitStreetNumber_rules (js_String v) else ([], [])) \<and>
   splitStreetNumber (Str (Musterstrasse @ str '' 12a'')) = (Musterstrasse, str ''12a'') \<and>
   splitStreetNumber (Str (str ''12 Main Street'')) = (str ''Main Street'', str ''12'') \<and>
   splitStreetNumber (Str (str ''Hauptweg'')) = (str ''Hauptweg'', [])"
proof -
  have 1: "splitStreetNumber v =
     (if truthy v then splitStreetNumber_rules (js_String v) else ([], []))"
    using splitStreetNumber_truthy [of v] by (simp add: splitStreetNumber_def)
  have 2: "splitStreetNumber (Str (Musterstrasse @ str '' 12a'')) = (Musterstrasse, str ''12a'')"
    by (simp add: splitStreetNumber_def Musterstrasse_def string_eval)
  have 3: "splitStreetNumber (Str (str ''12 Main Street'')) = (str ''Main Street'', str ''12'')"
    by (simp add: splitStreetNumber_def string_eval)
  have 4: "splitStreetNumber (Str (str ''Hauptweg'')) = (str ''Hauptweg'', [])"
    by (simp add: splitStreetNumber_def string_eval)
  from 1 2 3 4 show ?thesis by blast
qed

section \<open>The end-to-end example\<close>

text \<open>
  Claim C1. The row with Vorname "Max", Name "Mustermann", Adresse1 "Blumenstrasse 5"
  (written with sharp s), PLZ "10115", Ort "Berlin" and Land "Deutschland", mapped with the
  default alias table at index 0, gives exactly the record \<open>address0\<close>, with no
  \<open>LAND_UNMAPPED_ORIGINAL\<close>, and the validator has no warning for it, neither on the
  record alone nor in the warnings map of the batch that holds only this record. The lower-casing
  function is any that lower-cases ASCII strings as \<^verbatim>\<open>toLowerCase\<close> does, and the country
  table any that resolves the key "deutschland" to "DEU".
\<close>

theorem mapRow_end_to_end:
  assumes "lower_on_ascii lower" and "resolves lower cs (str ''deutschland'') (str ''DEU'')"
  shows "mapRow lower cs row0 0 None = address0 \<and>
         LAND_UNMAPPED_ORIGINAL (mapRow lower cs row0 0 None) = None \<and>
         validateMaxLengths (mapRow lower cs row0 0 None) = [] \<and>
         buildWarnings [mapRow lower cs row0 0 None] = Map.empty"
proof -
  have n: "createFullName (Str (str ''Max'')) (Str (str ''Mustermann'')) = str ''Max Mustermann''"
    by (simp add: createFullName_def str_def trim_def is_ws_def)
  have c1: "cleanValue (Str (str ''Max Mustermann'')) = str ''Max Mustermann''"
    by (simp add: cleanValue_def str_def trim_def is_ws_def)
  have c2: "cleanValue (Str (str ''Blumenstra'' @ [0xDF] @ str ''e'')) =
      str ''Blumenstra'' @ [0xDF] @ str ''e''"
    by (simp add: cleanValue_def str_def trim_def is_ws_def)
  have c3: "cleanValue (Str (str ''5'')) = str ''5''"
    by (simp add: cleanValue_def str_def trim_def is_ws_def)
  have c4: "cleanValue (Str (str ''10115'')) = str ''10115''"
    by (simp add: cleanValue_def str_def trim_def is_ws_def)
  have c5: "cleanValue (Str (str ''Berlin'')) = str ''Berlin''"
    by (simp add: cleanValue_def str_def trim_def is_ws_def)
  have c6: "cleanValue (Str []) = []"
    by (simp add: cleanValue_def)
  have g: "js_get (mapColumns lower row0 None) (str ''first_name'') = Str (str ''Max'')"
    "js_get (mapColumns lower row0 None) (str ''last_name'') = Str (str ''Mustermann'')"
    "js_get (mapColumns lower row0 None) (str ''street'') = Str (str ''Blumenstra'' @ [0xDF] @ str ''e 5'')"
    "js_get (mapColumns lower row0 None) (str ''address_addition'') = Undefined"
    "js_get (mapColumns lower row0 None) (str ''country'') = Str (str ''Deutschland'')"
    "js_get (mapColumns lower row0 None) (str ''postal_code'') = Str (str ''10115'')"
    "js_get (mapColumns lower row0 None) (str ''city'') = Str (str ''Berlin'')"
    unfolding mapColumns_row0 [OF assms(1)]
    by (simp_all add: js_get_def str_def Object_prototype_def)
  have t: "mapAddressType (Str []) = str ''HOUSE''"
    by (simp add: mapAddressType_def)
  have o: "js_or (Str (str ''Max'')) (Str []) = Str (str ''Max'')"
    "js_or (Str (str ''Mustermann'')) (Str []) = Str (str ''Mustermann'')"
    "js_or (Str (str ''Berlin'')) (Str []) = Str (str ''Berlin'')"
    "js_or Undefined (Str []) = Str []"
    by (simp_all add: js_or_def str_def)
  have r: "mapRow lower cs row0 0 None = address0"
    unfolding mapRow_def Let_def g o n t splitStreetNumber_Blumenstrasse
      mapCountry_Deutschland [OF assms]
    unfolding prod.case c1 c2 c3 c4 c5 c6
    by (simp add: address0_def)
  have b: "buildWarnings [address0] = Map.empty"
    by (rule ext) (simp add: buildWarnings_at validateMaxLengths_address0)
  have u: "LAND_UNMAPPED_ORIGINAL address0 = None" by (simp add: address0_def)
  show ?thesis
    unfolding r using validateMaxLengths_address0 b u by simp
qed

theorem mapRow_end_to_end_witness:
  "lower_on_ascii ascii_lower \<and>
   resolves ascii_lower [germany] (str ''deutschland'') (str ''DEU'') \<and>
   mapRow ascii_lower [germany] row0 0 None = address0 \<and>
   validateMaxLengths (mapRow ascii_lower [germany] row0 0 None) = [] \<and>
   buildWarnings [mapRow ascii_lower [germany] row0 0 None] = Map.empty"
proof -
  have l: "lower_on_ascii ascii_lower" by (simp add: lower_on_ascii_def)
  from mapRow_end_to_end [OF l resolves_germany] l resolves_germany show ?thesis by blast
qed

end
